theory Spec2Isabelle
  imports Complex_Main "HOL-Library.AList"
begin

section \<open>The cluster filter of \<open>filter_cluster_v6.0.py\<close>\<close>

text \<open>
  The script reads a VCF file three times: once for the contig lengths of its header,
  once to count the variants of the SDR chromosome and of all other chromosomes, and
  once to filter.  A file is modelled by the list of lines that iterating over the opened
  file yields (each line with its terminator), a character by \<^typ>\<open>char\<close>.  The
  embedding coincides with Python on ASCII text.  What the script prints on standard
  output is the list of the printed lines, in order; the diagnostics on standard error
  are left out, apart from the two counters of the final report.
\<close>

subsection \<open>Strings\<close>

text \<open>\<^verbatim>\<open>line.startswith("#")\<close>\<close>

definition startswith_hash :: "string \<Rightarrow> bool" where
  "startswith_hash l = (case l of [] \<Rightarrow> False | c # _ \<Rightarrow> c = CHR ''#'')"

text \<open>
  \<^verbatim>\<open>s.split(sep)\<close> for a separator of one character: the result is never empty, and
  the empty string gives one empty field.
\<close>

fun split_on :: "char \<Rightarrow> string \<Rightarrow> string list" where
  "split_on sep [] = [[]]"
| "split_on sep (c # cs) =
     (if c = sep then [] # split_on sep cs
      else (case split_on sep cs of
              [] \<Rightarrow> [[c]]
            | f # fs \<Rightarrow> (c # f) # fs))"

definition split_tab :: "string \<Rightarrow> string list" where
  "split_tab l = split_on (CHR 0x09) l"

text \<open>
  \<^verbatim>\<open>int(s)\<close> on a string, base ten: white space (tab, line feed, vertical tab, form
  feed, carriage return, space) is dropped at both ends, then comes an optional sign and
  a non-empty run of decimal digits in which single underscores may separate digits.
  Anything else raises \<^verbatim>\<open>ValueError\<close>, here \<open>None\<close>.
\<close>

definition py_isspace :: "char \<Rightarrow> bool" where
  "py_isspace c = (c \<in> set [CHR 0x09, CHR 0x0A, CHR 0x0B, CHR 0x0C, CHR 0x0D, CHR '' ''])"

definition is_digit :: "char \<Rightarrow> bool" where
  "is_digit c = (c \<in> set ''0123456789'')"

definition digit_val :: "char \<Rightarrow> nat" where
  "digit_val c = of_char c - 48"

fun py_digits :: "nat \<Rightarrow> string \<Rightarrow> nat option" where
  "py_digits acc [] = Some acc"
| "py_digits acc [c] = (if is_digit c then Some (10 * acc + digit_val c) else None)"
| "py_digits acc (c # d # ds) =
     (if is_digit c then py_digits (10 * acc + digit_val c) (d # ds)
      else if c = CHR ''_'' \<and> is_digit d then py_digits (10 * acc + digit_val d) ds
      else None)"

definition py_nat :: "string \<Rightarrow> nat option" where
  "py_nat s = (case s of
     [] \<Rightarrow> None
   | c # cs \<Rightarrow> if is_digit c then py_digits (digit_val c) cs else None)"

definition strip_int :: "string \<Rightarrow> string" where
  "strip_int s = rev (dropWhile py_isspace (rev (dropWhile py_isspace s)))"

definition py_int :: "string \<Rightarrow> int option" where
  "py_int s = (case strip_int s of
     [] \<Rightarrow> None
   | c # cs \<Rightarrow>
       if c = CHR ''-'' then map_option (\<lambda>n. - int n) (py_nat cs)
       else if c = CHR ''+'' then map_option int (py_nat cs)
       else map_option int (py_nat (c # cs)))"

subsection \<open>Reading a data line\<close>

text \<open>
  The exceptions of the script.  \<open>SystemExit\<close> is \<^verbatim>\<open>sys.exit(1)\<close>.
\<close>

datatype error = IndexError | ValueError | SystemExit | OverflowError | ZeroDivisionError

text \<open>
  The body of the \<^verbatim>\<open>try\<close> of the filtering pass:
  \<^verbatim>\<open>chrom = fields[0]; pos = int(fields[1])\<close>.  Indexing past the end of the list
  raises \<^verbatim>\<open>IndexError\<close>, a position that is no integer raises \<^verbatim>\<open>ValueError\<close>.
\<close>

definition read_fields :: "string list \<Rightarrow> error + (string \<times> int)" where
  "read_fields fields = (case fields of
     [] \<Rightarrow> Inl IndexError
   | f0 # rest \<Rightarrow> (case rest of
        [] \<Rightarrow> Inl IndexError
      | f1 # _ \<Rightarrow> (case py_int f1 of
           None \<Rightarrow> Inl ValueError
         | Some p \<Rightarrow> Inr (f0, p))))"

subsection \<open>The filtering pass of \<open>process_vcf\<close>\<close>

text \<open>
  An entry of the buffer is the dictionary
  \<^verbatim>\<open>{'line': line, 'chrom': chrom, 'pos': pos, 'keep': True}\<close>.
\<close>

record variant =
  line :: string
  chrom :: string
  pos :: int
  keep :: bool

text \<open>
  The variables the pass updates: the buffer, the printed lines and the two counters.
\<close>

record filter_state =
  buffer :: "variant list"
  printed :: "string list"
  kept_count :: nat
  removed_count :: nat

definition init_state :: filter_state where
  "init_state = \<lparr>buffer = [], printed = [], kept_count = 0, removed_count = 0\<rparr>"

text \<open>
  Releasing an entry, as the script does in three places: a kept entry is printed and
  counted as kept, any other is counted as removed.
\<close>

definition release :: "variant \<Rightarrow> filter_state \<Rightarrow> filter_state" where
  "release v s =
     (if keep v then s\<lparr>printed := printed s @ [line v], kept_count := kept_count s + 1\<rparr>
      else s\<lparr>removed_count := removed_count s + 1\<rparr>)"

text \<open>
  The loop \<^verbatim>\<open>for prev_var in buffer\<close> for an incoming record on chromosome \<open>c\<close> at
  position \<open>p\<close> under the threshold \<open>t\<close>.  It carries the state, the \<open>keep\<close> flag of
  the incoming record and \<open>new_buffer\<close>.
\<close>

fun scan_buffer ::
  "string \<Rightarrow> int \<Rightarrow> int \<Rightarrow> variant list \<Rightarrow> filter_state \<times> bool \<times> variant list
     \<Rightarrow> filter_state \<times> bool \<times> variant list" where
  "scan_buffer c p t [] acc = acc"
| "scan_buffer c p t (prev_var # rest) (s, cur_keep, new_buffer) =
     (if chrom prev_var \<noteq> c then
        scan_buffer c p t rest (release prev_var s, cur_keep, new_buffer)
      else if p - pos prev_var > t then
        scan_buffer c p t rest (release prev_var s, cur_keep, new_buffer)
      else
        scan_buffer c p t rest (s, False, new_buffer @ [prev_var\<lparr>keep := False\<rparr>]))"

text \<open>
  One iteration of \<^verbatim>\<open>for line in f\<close>.  A header line is printed at once.  The
  \<^verbatim>\<open>except ValueError: continue\<close> skips a line whose position is no integer; an
  \<^verbatim>\<open>IndexError\<close> is not caught and ends the run.
\<close>

definition process_line ::
  "string \<Rightarrow> int \<Rightarrow> int \<Rightarrow> filter_state \<Rightarrow> string \<Rightarrow> error + filter_state" where
  "process_line sdr_chrom thresh_sdr thresh_other s l =
     (if startswith_hash l then Inr (s\<lparr>printed := printed s @ [l]\<rparr>)
      else (case read_fields (split_tab l) of
          Inl e \<Rightarrow> (if e = ValueError then Inr s else Inl e)
        | Inr (c, p) \<Rightarrow>
            (let current_thresh = (if c = sdr_chrom then thresh_sdr else thresh_other);
                 (s', cur_keep, new_buffer) =
                    scan_buffer c p current_thresh (buffer s) (s, True, [])
             in Inr (s'\<lparr>buffer := new_buffer @
                         [\<lparr>line = l, chrom = c, pos = p, keep = cur_keep\<rparr>]\<rparr>))))"

fun run_lines ::
  "string \<Rightarrow> int \<Rightarrow> int \<Rightarrow> filter_state \<Rightarrow> string list \<Rightarrow> error + filter_state" where
  "run_lines sdr_chrom thresh_sdr thresh_other s [] = Inr s"
| "run_lines sdr_chrom thresh_sdr thresh_other s (l # ls) =
     (case process_line sdr_chrom thresh_sdr thresh_other s l of
        Inl e \<Rightarrow> Inl e
      | Inr s' \<Rightarrow> run_lines sdr_chrom thresh_sdr thresh_other s' ls)"

text \<open>The last loop empties the buffer.\<close>

definition drain :: "filter_state \<Rightarrow> filter_state" where
  "drain s = fold release (buffer s) s"

text \<open>
  The whole pass: the printed lines, and the numbers reported as kept and as removed.
\<close>

definition filter_pass ::
  "string \<Rightarrow> int \<Rightarrow> int \<Rightarrow> string list \<Rightarrow> error + (string list \<times> nat \<times> nat)" where
  "filter_pass sdr_chrom thresh_sdr thresh_other ls =
     (case run_lines sdr_chrom thresh_sdr thresh_other init_state ls of
        Inl e \<Rightarrow> Inl e
      | Inr s \<Rightarrow> (let s' = drain s in Inr (printed s', kept_count s', removed_count s')))"

subsection \<open>The counting pass of \<open>calculate_stats\<close>\<close>

text \<open>
  The first loop over the data lines counts the records of the SDR chromosome and of
  the others and notes the largest position of each.  It tests
  \<^verbatim>\<open>len(fields) < 2\<close> before it reads the second field.
\<close>

record stats =
  count_sdr :: nat
  count_other :: nat
  max_pos_sdr :: int
  max_pos_other :: int

definition stats_line :: "string \<Rightarrow> stats \<Rightarrow> string \<Rightarrow> stats" where
  "stats_line sdr_chrom st l =
     (if startswith_hash l then st
      else (let fields = split_tab l in
        if length fields < 2 then st
        else (case py_int (fields ! 1) of
            None \<Rightarrow> st
          | Some p \<Rightarrow>
              if fields ! 0 = sdr_chrom then
                st\<lparr>count_sdr := count_sdr st + 1,
                   max_pos_sdr := (if p > max_pos_sdr st then p else max_pos_sdr st)\<rparr>
              else
                st\<lparr>count_other := count_other st + 1,
                   max_pos_other := (if p > max_pos_other st then p else max_pos_other st)\<rparr>)))"

definition count_variants :: "string \<Rightarrow> string list \<Rightarrow> stats" where
  "count_variants sdr_chrom ls =
     fold (\<lambda>l st. stats_line sdr_chrom st l) ls
       \<lparr>count_sdr = 0, count_other = 0, max_pos_sdr = 0, max_pos_other = 0\<rparr>"

subsection \<open>The table of chromosome lengths\<close>

text \<open>
  A dictionary from chromosome names to lengths is an association list with distinct
  keys, in the order of insertion: \<^verbatim>\<open>d[k] = v\<close> is \<^const>\<open>AList.update\<close>,
  \<^verbatim>\<open>k in d\<close> is \<open>map_of d k \<noteq> None\<close>, \<^verbatim>\<open>d.get(k)\<close> is \<open>map_of d k\<close>, and
  \<^verbatim>\<open>d.items()\<close> is the list itself.
\<close>

type_synonym chrom_table = "(string \<times> int) list"

text \<open>
  \<^verbatim>\<open>line.strip()\<close>: the white space of \<^verbatim>\<open>str.strip\<close> is that of \<^verbatim>\<open>int\<close> and the
  four separators \<open>0x1C\<close> to \<open>0x1F\<close>.
\<close>

definition str_isspace :: "char \<Rightarrow> bool" where
  "str_isspace c = (py_isspace c \<or> c \<in> set [CHR 0x1C, CHR 0x1D, CHR 0x1E, CHR 0x1F])"

definition strip :: "string \<Rightarrow> string" where
  "strip s = rev (dropWhile str_isspace (rev (dropWhile str_isspace s)))"

text \<open>
  The argument \<^verbatim>\<open>args.fai\<close> of \<^verbatim>\<open>get_chrom_lengths_from_fai\<close>: the empty path, the
  path of a file that cannot be opened or read, or the path of a file with the given
  lines.
\<close>

datatype fai_file = NoPath | Unreadable | Lines "string list"

text \<open>
  The body of the loop over the lines of the index file: an empty line, a line of one
  field and a line whose second field is no integer leave the table as it is.
\<close>

definition fai_entry :: "string \<Rightarrow> chrom_table \<Rightarrow> chrom_table" where
  "fai_entry l chrom_lens =
     (let l' = strip l in
      if l' = [] then chrom_lens
      else (let parts = split_tab l' in
        if 2 \<le> length parts then
          (case py_int (parts ! 1) of
             None \<Rightarrow> chrom_lens
           | Some n \<Rightarrow> AList.update (parts ! 0) n chrom_lens)
        else chrom_lens))"

text \<open>
  \<^verbatim>\<open>get_chrom_lengths_from_fai\<close>.  Without a path the table is empty; a file that
  cannot be read ends the script with \<^verbatim>\<open>sys.exit(1)\<close>.
\<close>

definition get_chrom_lengths_from_fai :: "fai_file \<Rightarrow> error + chrom_table" where
  "get_chrom_lengths_from_fai fai = (case fai of
     NoPath \<Rightarrow> Inr []
   | Unreadable \<Rightarrow> Inl SystemExit
   | Lines ls \<Rightarrow> Inr (fold fai_entry ls []))"

text \<open>
  \<^verbatim>\<open>re.search\<close> for a pattern made of a literal prefix and one group, a non-empty
  greedy run of characters of a class, as in \<^verbatim>\<open>ID=([^,>]+)\<close> and \<^verbatim>\<open>length=(\d+)\<close>:
  the group of the leftmost match, or \<open>None\<close>.
\<close>

fun re_search :: "string \<Rightarrow> (char \<Rightarrow> bool) \<Rightarrow> string \<Rightarrow> string option" where
  "re_search pre ok [] = None"
| "re_search pre ok (c # cs) =
     (let g = takeWhile ok (drop (length pre) (c # cs)) in
      if take (length pre) (c # cs) = pre \<and> g \<noteq> [] then Some g
      else re_search pre ok cs)"

text \<open>\<^verbatim>\<open>int(s)\<close> on a run of decimal digits, as the group of \<^verbatim>\<open>length=(\d+)\<close> is.\<close>

definition digits_int :: "string \<Rightarrow> int" where
  "digits_int ds = int (foldl (\<lambda>acc c. 10 * acc + digit_val c) 0 ds)"

text \<open>
  The loop of \<^verbatim>\<open>get_chrom_lengths_from_vcf\<close>: a line that starts with
  \<^verbatim>\<open>##contig\<close> enters the table when both searches succeed; the first line that
  does not start with \<^verbatim>\<open>#\<close> ends the loop.
\<close>

fun scan_contigs :: "chrom_table \<Rightarrow> string list \<Rightarrow> chrom_table" where
  "scan_contigs chrom_lens [] = chrom_lens"
| "scan_contigs chrom_lens (l # ls) =
     (if take 8 l = ''##contig'' then
        (case (re_search ''ID='' (\<lambda>c. c \<noteq> CHR '','' \<and> c \<noteq> CHR ''>'') l,
               re_search ''length='' is_digit l) of
           (Some m_id, Some m_len) \<Rightarrow>
             scan_contigs (AList.update m_id (digits_int m_len) chrom_lens) ls
         | _ \<Rightarrow> scan_contigs chrom_lens ls)
      else if \<not> startswith_hash l then chrom_lens
      else scan_contigs chrom_lens ls)"

definition get_chrom_lengths_from_vcf :: "string list \<Rightarrow> chrom_table" where
  "get_chrom_lengths_from_vcf ls = scan_contigs [] ls"

text \<open>
  The body of the loop of \<^verbatim>\<open>get_combined_chrom_lengths\<close> over the items of the
  header table: \<^verbatim>\<open>if chrom not in chrom_lens: chrom_lens[chrom] = length\<close>.
\<close>

definition fill_gap :: "string \<times> int \<Rightarrow> chrom_table \<Rightarrow> chrom_table" where
  "fill_gap e chrom_lens =
     (case e of (c, n) \<Rightarrow>
        if map_of chrom_lens c = None then AList.update c n chrom_lens
        else chrom_lens)"

text \<open>
  \<^verbatim>\<open>get_combined_chrom_lengths\<close>, from the index file \<^verbatim>\<open>args.fai\<close> and the lines of
  \<^verbatim>\<open>args.input_vcf\<close>.
\<close>

definition get_combined_chrom_lengths :: "fai_file \<Rightarrow> string list \<Rightarrow> error + chrom_table" where
  "get_combined_chrom_lengths fai vcf =
     (case get_chrom_lengths_from_fai fai of
        Inl e \<Rightarrow> Inl e
      | Inr chrom_lens \<Rightarrow> Inr (fold fill_gap (get_chrom_lengths_from_vcf vcf) chrom_lens))"

subsection \<open>Floating-point numbers\<close>

text \<open>
  A Python float is an IEEE 754 binary64 number.  It is modelled by its value: a real
  number for a finite float, and three more values for the infinities and for
  not-a-number.  The sign of a zero is left out: no result of the threshold calculation
  depends on it.
\<close>

datatype pyfloat = Finite real | PInf | NInf | NaN

text \<open>
  Rounding to the nearest integer, a tie going to the even one.
\<close>

definition round_half_even :: "real \<Rightarrow> int" where
  "round_half_even x =
     (let n = \<lfloor>x\<rfloor>; r = x - of_int n in
      if r < 1 / 2 then n
      else if 1 / 2 < r then n + 1
      else if even n then n else n + 1)"

text \<open>
  Rounding a real number to 53 significant bits.  The exponent of \<open>x\<close> is the \<open>e\<close> with
  \<open>2 powi e \<le> \<bar>x\<bar> < 2 powi (e + 1)\<close>, but at least \<open>-1022\<close>, where the subnormal
  numbers begin; the floats of that exponent are the multiples of the quantum
  \<open>2 powi (e - 52)\<close>, and \<open>x\<close> goes to the nearest of them, a tie to the one with the even
  multiplier.
\<close>

definition exponent :: "real \<Rightarrow> int" where
  "exponent x = max \<lfloor>log 2 \<bar>x\<bar>\<rfloor> (- 1022)"

definition quantum :: "real \<Rightarrow> real" where
  "quantum x = 2 powi (exponent x - 52)"

definition nearest :: "real \<Rightarrow> real" where
  "nearest x =
     (if x = 0 then 0 else quantum x * of_int (round_half_even (x / quantum x)))"

text \<open>
  The float a real number is rounded to: the result of an arithmetic operation with that
  exact value, and the value of a decimal literal.  A rounded magnitude of \<open>2 ^ 1024\<close> or
  more overflows to an infinity.  A real number is representable when it is the value of
  a finite float.
\<close>

definition to_float :: "real \<Rightarrow> pyfloat" where
  "to_float x =
     (let y = nearest x in
      if 2 ^ 1024 \<le> y then PInf else if y \<le> - (2 ^ 1024) then NInf else Finite y)"

definition representable :: "real \<Rightarrow> bool" where
  "representable x = (to_float x = Finite x)"

text \<open>
  \<^verbatim>\<open>x <= y\<close>, \<^verbatim>\<open>x - y\<close>, \<^verbatim>\<open>-x\<close> and \<^verbatim>\<open>x / y\<close> on floats.  A comparison with
  not-a-number is false.  Division by zero raises \<^verbatim>\<open>ZeroDivisionError\<close>, whatever the
  dividend; an overflow of the quotient gives an infinity and raises nothing.
\<close>

definition float_le :: "pyfloat \<Rightarrow> pyfloat \<Rightarrow> bool" where
  "float_le x y = (case x of
     NaN \<Rightarrow> False
   | NInf \<Rightarrow> y \<noteq> NaN
   | PInf \<Rightarrow> y = PInf
   | Finite a \<Rightarrow> (case y of Finite b \<Rightarrow> a \<le> b | PInf \<Rightarrow> True | _ \<Rightarrow> False))"

definition float_sub :: "pyfloat \<Rightarrow> pyfloat \<Rightarrow> pyfloat" where
  "float_sub x y = (case x of
     NaN \<Rightarrow> NaN
   | Finite a \<Rightarrow>
       (case y of Finite b \<Rightarrow> to_float (a - b) | PInf \<Rightarrow> NInf | NInf \<Rightarrow> PInf | NaN \<Rightarrow> NaN)
   | PInf \<Rightarrow> (case y of PInf \<Rightarrow> NaN | NaN \<Rightarrow> NaN | _ \<Rightarrow> PInf)
   | NInf \<Rightarrow> (case y of NInf \<Rightarrow> NaN | NaN \<Rightarrow> NaN | _ \<Rightarrow> NInf))"

definition float_neg :: "pyfloat \<Rightarrow> pyfloat" where
  "float_neg x = (case x of
     Finite a \<Rightarrow> Finite (- a) | PInf \<Rightarrow> NInf | NInf \<Rightarrow> PInf | NaN \<Rightarrow> NaN)"

definition float_div :: "pyfloat \<Rightarrow> pyfloat \<Rightarrow> error + pyfloat" where
  "float_div x y =
     (if y = Finite 0 then Inl ZeroDivisionError
      else Inr (case x of
          NaN \<Rightarrow> NaN
        | Finite a \<Rightarrow>
            (case y of Finite b \<Rightarrow> to_float (a / b) | NaN \<Rightarrow> NaN | _ \<Rightarrow> Finite 0)
        | _ \<Rightarrow>
            (case y of
               Finite b \<Rightarrow> if (x = PInf) = (0 < b) then PInf else NInf
             | _ \<Rightarrow> NaN)))"

text \<open>
  \<^verbatim>\<open>math.log(x)\<close>.  On a positive finite float it returns what the logarithm of the C
  library returns, a finite float; that function is not part of the script, and
  libraries differ in the last bit, so it is the parameter \<open>libm_log\<close> here.  On a finite
  float that is not positive, and on minus infinity, \<^verbatim>\<open>math.log\<close> raises
  \<^verbatim>\<open>ValueError\<close>.
\<close>

definition math_log :: "(real \<Rightarrow> real) \<Rightarrow> pyfloat \<Rightarrow> error + pyfloat" where
  "math_log libm_log x = (case x of
     Finite a \<Rightarrow> if 0 < a then Inr (Finite (libm_log a)) else Inl ValueError
   | PInf \<Rightarrow> Inr PInf
   | NInf \<Rightarrow> Inl ValueError
   | NaN \<Rightarrow> Inr NaN)"

text \<open>
  \<^verbatim>\<open>int(x)\<close> on a float drops the fractional part, rounding toward zero; it raises
  \<^verbatim>\<open>ValueError\<close> on not-a-number and \<^verbatim>\<open>OverflowError\<close> on an infinity.
\<close>

definition py_trunc :: "real \<Rightarrow> int" where
  "py_trunc x = (if 0 \<le> x then \<lfloor>x\<rfloor> else \<lceil>x\<rceil>)"

definition int_of_float :: "pyfloat \<Rightarrow> error + int" where
  "int_of_float x = (case x of
     Finite a \<Rightarrow> Inr (py_trunc a)
   | NaN \<Rightarrow> Inl ValueError
   | _ \<Rightarrow> Inl OverflowError)"

subsection \<open>The distance threshold\<close>

text \<open>The literal \<^verbatim>\<open>1e-9\<close>.\<close>

definition float_1e_9 :: pyfloat where
  "float_1e_9 = to_float (1 / 10 ^ 9)"

text \<open>
  \<^verbatim>\<open>calculate_dist_threshold\<close>.  The integer \<^verbatim>\<open>1\<close> of \<^verbatim>\<open>1 - p_value\<close> is converted
  to the float of the same value.
\<close>

definition calculate_dist_threshold ::
  "(real \<Rightarrow> real) \<Rightarrow> pyfloat \<Rightarrow> pyfloat \<Rightarrow> int \<Rightarrow> error + int" where
  "calculate_dist_threshold libm_log het p_value min_threshold =
     (if float_le het float_1e_9 then Inr min_threshold
      else (case math_log libm_log (float_sub (Finite 1) p_value) of
          Inl e \<Rightarrow> Inl e
        | Inr l \<Rightarrow> (case float_div (float_neg l) het of
            Inl e \<Rightarrow> Inl e
          | Inr q \<Rightarrow> (case int_of_float q of
              Inl e \<Rightarrow> Inl e
            | Inr calc_thresh \<Rightarrow> Inr (max calc_thresh min_threshold)))))"

subsection \<open>Notions used to state the properties\<close>

text \<open>
  The record a data line carries: the chromosome and the position the pass reads from it;
  \<open>None\<close> for a header line and for a line the pass cannot read.
\<close>

definition record_of :: "string \<Rightarrow> (string \<times> int) option" where
  "record_of l =
     (if startswith_hash l then None
      else (case read_fields (split_tab l) of Inl e \<Rightarrow> None | Inr r \<Rightarrow> Some r))"

definition is_record :: "string \<Rightarrow> bool" where
  "is_record l = (record_of l \<noteq> None)"

definition record_lines :: "string list \<Rightarrow> string list" where
  "record_lines ls = filter is_record ls"

text \<open>A data line with fewer than two tab-separated fields.\<close>

definition too_short :: "string \<Rightarrow> bool" where
  "too_short l = (\<not> startswith_hash l \<and> length (split_tab l) < 2)"

text \<open>
  The test of the inner loop that puts a buffered entry \<open>v\<close> in conflict with an
  incoming record at \<open>(c, p)\<close>: same chromosome, and not \<^verbatim>\<open>dist > current_thresh\<close>.
\<close>

definition in_conflict :: "string \<Rightarrow> int \<Rightarrow> int \<Rightarrow> variant \<Rightarrow> bool" where
  "in_conflict c p t v = (chrom v = c \<and> p - pos v \<le> t)"

text \<open>\<^verbatim>\<open>thresh_sdr if chrom == args.sdr_chrom else thresh_other\<close>\<close>

definition threshold_of :: "string \<Rightarrow> int \<Rightarrow> int \<Rightarrow> string \<Rightarrow> int" where
  "threshold_of sdr_chrom thresh_sdr thresh_other c =
     (if c = sdr_chrom then thresh_sdr else thresh_other)"

text \<open>
  A data line of a VCF file with chromosome \<open>c\<close> and position \<open>p\<close>, for the examples:
  the two fields, a third field and the line feed.
\<close>

definition vcf_line :: "string \<Rightarrow> string \<Rightarrow> string" where
  "vcf_line c p = c @ [CHR 0x09] @ p @ [CHR 0x09, CHR ''.'', CHR 0x0A]"

text \<open>The records of a list of lines, in order, and the pair an entry of the buffer stands for.\<close>

fun records :: "string list \<Rightarrow> (string \<times> int) list" where
  "records [] = []"
| "records (l # ls) = (case record_of l of None \<Rightarrow> records ls | Some r \<Rightarrow> r # records ls)"

definition key :: "variant \<Rightarrow> string \<times> int" where
  "key v = (chrom v, pos v)"

definition is_data :: "string \<Rightarrow> bool" where
  "is_data l = (\<not> startswith_hash l)"

text \<open>
  The orders on the input that the properties speak of, for a list of records
  \<open>(chromosome, position)\<close>: positions never decrease within a chromosome; any two
  records of a chromosome are farther apart than the threshold \<open>th\<close> of that chromosome;
  and, combining both, every later record of a chromosome lies more than the threshold
  after every earlier one.
\<close>

fun nondecreasing_per_chrom :: "(string \<times> int) list \<Rightarrow> bool" where
  "nondecreasing_per_chrom [] = True"
| "nondecreasing_per_chrom (r # rs) =
     (list_all (\<lambda>r'. fst r' = fst r \<longrightarrow> snd r \<le> snd r') rs \<and> nondecreasing_per_chrom rs)"

fun pairwise_spaced :: "(string \<Rightarrow> int) \<Rightarrow> (string \<times> int) list \<Rightarrow> bool" where
  "pairwise_spaced th [] = True"
| "pairwise_spaced th (r # rs) =
     (list_all (\<lambda>r'. fst r' = fst r \<longrightarrow> th (fst r) < \<bar>snd r' - snd r\<bar>) rs \<and>
      pairwise_spaced th rs)"

fun far_apart :: "(string \<Rightarrow> int) \<Rightarrow> (string \<times> int) list \<Rightarrow> bool" where
  "far_apart th [] = True"
| "far_apart th (r # rs) =
     (list_all (\<lambda>r'. fst r' = fst r \<longrightarrow> th (fst r) < snd r' - snd r) rs \<and> far_apart th rs)"

text \<open>
  The records of each chromosome are consecutive: a chromosome that has been left does
  not come back.
\<close>

fun chrom_contiguous :: "string list \<Rightarrow> bool" where
  "chrom_contiguous [] = True"
| "chrom_contiguous [c] = True"
| "chrom_contiguous (c # d # cs) = ((c = d \<or> c \<notin> set cs) \<and> chrom_contiguous (d # cs))"

text \<open>All header lines come before the first data line.\<close>

definition headers_first :: "string list \<Rightarrow> bool" where
  "headers_first ls = list_all is_data (dropWhile startswith_hash ls)"

text \<open>Every entry of the buffer may still be printed, and none holds a header line.\<close>

definition all_pending :: "filter_state \<Rightarrow> bool" where
  "all_pending s = (\<forall>v\<in>set (buffer s). keep v \<and> is_data (line v))"

text \<open>A header line, for the examples.\<close>

definition header_line :: string where
  "header_line = ''##fileformat=VCFv4.2'' @ [CHR 0x0A]"

text \<open>
  What holds after the lines \<open>ls\<close> when their records are grouped by chromosome and in
  non-decreasing order: every entry of the buffer carries the record of its line; every
  printed line is a header or a record; only the last entry of the buffer may still be
  kept; the records printed so far are far apart; the last entry of the buffer is the
  last record read; the printed records are among those read; a last entry that may still
  be kept lies more than the threshold after every printed record of its chromosome; and
  the kept count is the number of printed records.
\<close>

definition grouped_inv :: "(string \<Rightarrow> int) \<Rightarrow> string list \<Rightarrow> filter_state \<Rightarrow> bool" where
  "grouped_inv th ls s =
     ((\<forall>v\<in>set (buffer s). record_of (line v) = Some (key v)) \<and>
      (\<forall>l\<in>set (printed s). startswith_hash l \<or> is_record l) \<and>
      (\<forall>v\<in>set (butlast (buffer s)). \<not> keep v) \<and>
      far_apart th (records (printed s)) \<and>
      (if records ls = [] then buffer s = []
       else buffer s \<noteq> [] \<and> key (last (buffer s)) = last (records ls)) \<and>
      set (records (printed s)) \<subseteq> set (records ls) \<and>
      (buffer s \<noteq> [] \<and> keep (last (buffer s)) \<longrightarrow>
         (\<forall>e\<in>set (records (printed s)).
            fst e = chrom (last (buffer s)) \<longrightarrow> th (fst e) < pos (last (buffer s)) - snd e)) \<and>
      kept_count s = length (record_lines (printed s)))"

text \<open>
  A line of an index file and a contig line of a VCF header for chromosome \<open>c\<close> with
  length \<open>n\<close>, for the examples.
\<close>

definition fai_line :: "string \<Rightarrow> string \<Rightarrow> string" where
  "fai_line c n = c @ [CHR 0x09] @ n @ [CHR 0x09, CHR ''0'', CHR 0x0A]"

definition contig_line :: "string \<Rightarrow> string \<Rightarrow> string" where
  "contig_line c n = ''##contig=<ID='' @ c @ '',length='' @ n @ ''>'' @ [CHR 0x0A]"

text \<open>
  The value of the float \<^verbatim>\<open>1e-9\<close>, which lies a little above \<open>1 / 10 ^ 9\<close>.
\<close>

definition epsilon :: real where
  "epsilon = 4835703278458517 / 2 ^ 82"

text \<open>
  What the properties of the threshold need of the logarithm of the C library: it is not
  positive on \<open>(0, 1]\<close>, and its magnitude is at most \<open>2048\<close> on the range of the positive
  floats (the natural logarithm is below \<open>745\<close> in magnitude there).
\<close>

definition log_contract :: "(real \<Rightarrow> real) \<Rightarrow> bool" where
  "log_contract libm_log =
     (\<forall>x. 0 < x \<longrightarrow>
        (x \<le> 1 \<longrightarrow> libm_log x \<le> 0) \<and>
        (2 powi (- 1074) \<le> x \<and> x < 2 ^ 1024 \<longrightarrow> \<bar>libm_log x\<bar> \<le> 2 ^ 11))"

text \<open>
  A logarithm for the examples: the natural logarithm, rounded to the nearest float.  At
  \<open>0.5\<close> it is \<open>-0.6931471805599453\<close>, which is what \<^verbatim>\<open>math.log(0.5)\<close> returns.
\<close>

definition nearest_log :: "real \<Rightarrow> real" where
  "nearest_log x = nearest (ln x)"

text \<open>
  The first \<open>n\<close> terms of the exponential series, from the term of index \<open>k\<close> on and
  divided by that term's coefficient; used to bound \<open>ln 2\<close>.
\<close>

definition exp_partial :: "nat \<Rightarrow> nat \<Rightarrow> real \<Rightarrow> real" where
  "exp_partial n k x = (\<Sum>j<n. x ^ j * fact k / fact (k + j))"

section \<open>Properties of the filtering pass\<close>

lemma split_on_not_Nil: "split_on sep s \<noteq> []"
  by (induction s) (auto split: list.splits)

lemma read_fields_cases:
  "read_fields fs = Inl IndexError \<and> length fs < 2
   \<or> read_fields fs = Inl ValueError \<and> 2 \<le> length fs
   \<or> (\<exists>r. read_fields fs = Inr r \<and> 2 \<le> length fs)"
  by (auto simp: read_fields_def split: list.splits option.splits)

lemma fold_release_buffer: "buffer (fold release vs s) = buffer s"
  by (induction vs arbitrary: s) (auto simp: release_def)

lemma fold_release_printed:
  "printed (fold release vs s) = printed s @ map line (filter keep vs)"
  by (induction vs arbitrary: s) (auto simp: release_def)

lemma fold_release_kept:
  "kept_count (fold release vs s) = kept_count s + length (filter keep vs)"
  by (induction vs arbitrary: s) (auto simp: release_def)

lemma fold_release_removed:
  "removed_count (fold release vs s) = removed_count s + length (filter (\<lambda>v. \<not> keep v) vs)"
  by (induction vs arbitrary: s) (auto simp: release_def)

lemma scan_buffer_closed:
  "scan_buffer c p t vs (s, k, nb) =
     (fold release (filter (\<lambda>v. \<not> in_conflict c p t v) vs) s,
      k \<and> (\<forall>v\<in>set vs. \<not> in_conflict c p t v),
      nb @ map (\<lambda>v. v\<lparr>keep := False\<rparr>) (filter (in_conflict c p t) vs))"
  by (induction vs arbitrary: s k nb) (auto simp: in_conflict_def)

lemma process_line_header:
  "startswith_hash l \<Longrightarrow>
     process_line sdr ts to s l = Inr (s\<lparr>printed := printed s @ [l]\<rparr>)"
  by (simp add: process_line_def)

lemma process_line_record:
  assumes "record_of l = Some (c, p)"
  shows "process_line sdr ts to s l =
     Inr ((fold release (filter (\<lambda>v. \<not> in_conflict c p (threshold_of sdr ts to c) v) (buffer s)) s)
          \<lparr>buffer := map (\<lambda>v. v\<lparr>keep := False\<rparr>)
                       (filter (in_conflict c p (threshold_of sdr ts to c)) (buffer s)) @
                     [\<lparr>line = l, chrom = c, pos = p,
                       keep = (\<forall>v\<in>set (buffer s). \<not> in_conflict c p (threshold_of sdr ts to c) v)\<rparr>]\<rparr>)"
  using assms
  by (auto simp: process_line_def record_of_def scan_buffer_closed threshold_of_def
           split: if_splits sum.splits)

lemma process_line_skip:
  assumes "\<not> startswith_hash l" "record_of l = None" "\<not> too_short l"
  shows "process_line sdr ts to s l = Inr s"
  using assms read_fields_cases [of "split_tab l"]
  by (auto simp: process_line_def record_of_def too_short_def split: sum.splits)

lemma process_line_abort:
  assumes "too_short l"
  shows "process_line sdr ts to s l = Inl IndexError"
  using assms read_fields_cases [of "split_tab l"]
  by (auto simp: process_line_def too_short_def split: sum.splits)

lemma run_lines_append:
  "run_lines sdr ts to s (xs @ ys) =
     (case run_lines sdr ts to s xs of Inl e \<Rightarrow> Inl e | Inr s' \<Rightarrow> run_lines sdr ts to s' ys)"
  by (induction xs arbitrary: s) (auto split: sum.splits)


lemma process_line_Inr_cases:
  assumes "process_line sdr ts to s l = Inr s'"
  obtains (header) "startswith_hash l" "s' = s\<lparr>printed := printed s @ [l]\<rparr>"
  | (skip) "\<not> startswith_hash l" "\<not> is_record l" "s' = s"
  | (data) c p where "record_of l = Some (c, p)" "\<not> startswith_hash l"
      "s' = (fold release (filter (\<lambda>v. \<not> in_conflict c p (threshold_of sdr ts to c) v) (buffer s)) s)
          \<lparr>buffer := map (\<lambda>v. v\<lparr>keep := False\<rparr>)
                       (filter (in_conflict c p (threshold_of sdr ts to c)) (buffer s)) @
                     [\<lparr>line = l, chrom = c, pos = p,
                       keep = (\<forall>v\<in>set (buffer s). \<not> in_conflict c p (threshold_of sdr ts to c) v)\<rparr>]\<rparr>"
proof (cases "startswith_hash l")
  case True
  with assms header show ?thesis by (simp add: process_line_header)
next
  case nh: False
  show ?thesis
  proof (cases "record_of l")
    case None
    have "\<not> too_short l" using assms process_line_abort [of l sdr ts to s] by auto
    with None nh assms skip show ?thesis
      by (simp add: process_line_skip is_record_def)
  next
    case (Some r)
    obtain c p where "r = (c, p)" by (cases r)
    with Some assms nh data [of c p] show ?thesis
      by (simp add: process_line_record)
  qed
qed

lemma run_lines_snoc:
  "run_lines sdr ts to s (ls @ [l]) = Inr s' \<longleftrightarrow>
     (\<exists>s0. run_lines sdr ts to s ls = Inr s0 \<and> process_line sdr ts to s0 l = Inr s')"
  by (auto simp: run_lines_append split: sum.splits)

lemma count_split: "length (filter P xs) + length (filter (\<lambda>x. \<not> P x) xs) = length xs"
  by (induction xs) auto

lemma process_line_conserves:
  assumes "process_line sdr ts to s l = Inr s'"
  shows "kept_count s' + removed_count s' + length (buffer s') =
         kept_count s + removed_count s + length (buffer s) + (if is_record l then 1 else 0)"
  using assms
proof (cases rule: process_line_Inr_cases)
  case header
  then show ?thesis by (simp add: is_record_def record_of_def)
next
  case skip
  then show ?thesis by simp
next
  case (data c p)
  let ?P = "in_conflict c p (threshold_of sdr ts to c)"
  let ?rel = "filter (\<lambda>v. \<not> ?P v) (buffer s)"
  have "length (filter keep ?rel) + length (filter (\<lambda>v. \<not> keep v) ?rel) = length ?rel"
    by (rule count_split)
  moreover have "length (filter ?P (buffer s)) + length ?rel = length (buffer s)"
    by (rule count_split)
  ultimately show ?thesis using data
    by (simp add: fold_release_kept fold_release_removed is_record_def)
qed

lemma run_lines_conserves:
  "run_lines sdr ts to s ls = Inr s' \<Longrightarrow>
     kept_count s' + removed_count s' + length (buffer s') =
     kept_count s + removed_count s + length (buffer s) + length (record_lines ls)"
proof (induction ls arbitrary: s)
  case Nil
  then show ?case by (simp add: record_lines_def)
next
  case (Cons l ls)
  then obtain s0 where s0: "process_line sdr ts to s l = Inr s0"
    and rest: "run_lines sdr ts to s0 ls = Inr s'"
    by (auto split: sum.splits)
  from process_line_conserves [OF s0] Cons.IH [OF rest] show ?case
    by (simp add: record_lines_def)
qed

lemma drain_counts:
  "kept_count (drain s) + removed_count (drain s) =
     kept_count s + removed_count s + length (buffer s)"
  using count_split [of keep "buffer s"]
  by (simp add: drain_def fold_release_kept fold_release_removed)

subsection \<open>Conservation of records\<close>

text \<open>
  Claim C9.  Every data record the pass has read is resolved exactly once.  For the state
  reached after any number of input lines, the lines read so far being \<open>ls\<close>, the number
  of records among them is the kept count plus the removed count plus the length of the
  buffer; and the counts reported at the end of the stream add up to the number of records
  of the whole input.
\<close>

theorem conservation_of_records:
  "(run_lines sdr ts to init_state ls = Inr s \<longrightarrow>
      kept_count s + removed_count s + length (buffer s) = length (record_lines ls)) \<and>
   (filter_pass sdr ts to ls = Inr (out, k, r) \<longrightarrow> k + r = length (record_lines ls))"
proof (intro conjI impI)
  assume "run_lines sdr ts to init_state ls = Inr s"
  from run_lines_conserves [OF this]
  show "kept_count s + removed_count s + length (buffer s) = length (record_lines ls)"
    by (simp add: init_state_def)
next
  assume fp: "filter_pass sdr ts to ls = Inr (out, k, r)"
  then obtain s where s: "run_lines sdr ts to init_state ls = Inr s"
    and k: "k = kept_count (drain s)" and r: "r = removed_count (drain s)"
    by (auto simp: filter_pass_def Let_def split: sum.splits)
  from run_lines_conserves [OF s] drain_counts [of s] k r
  show "k + r = length (record_lines ls)"
    by (simp add: init_state_def)
qed

theorem conservation_of_records_witness:
  "run_lines ''Chr1_RagTag'' 20 20 init_state [vcf_line ''chr1'' ''10'', vcf_line ''chr1'' ''15''] =
     Inr \<lparr>buffer = [\<lparr>line = vcf_line ''chr1'' ''10'', chrom = ''chr1'', pos = 10, keep = False\<rparr>,
                     \<lparr>line = vcf_line ''chr1'' ''15'', chrom = ''chr1'', pos = 15, keep = False\<rparr>],
          printed = [], kept_count = 0, removed_count = 0\<rparr> \<and>
   filter_pass ''Chr1_RagTag'' 20 20 [vcf_line ''chr1'' ''10'', vcf_line ''chr1'' ''15''] =
     Inr ([], 0, 2) \<and>
   length (record_lines [vcf_line ''chr1'' ''10'', vcf_line ''chr1'' ''15'']) = 2"
proof -
  let ?ls = "[vcf_line ''chr1'' ''10'', vcf_line ''chr1'' ''15'']"
  let ?s = "\<lparr>buffer = [\<lparr>line = vcf_line ''chr1'' ''10'', chrom = ''chr1'', pos = 10, keep = False\<rparr>,
                     \<lparr>line = vcf_line ''chr1'' ''15'', chrom = ''chr1'', pos = 15, keep = False\<rparr>],
          printed = [], kept_count = 0, removed_count = 0\<rparr>"
  have run: "run_lines ''Chr1_RagTag'' 20 20 init_state ?ls = Inr ?s"
    by code_simp
  have pass: "filter_pass ''Chr1_RagTag'' 20 20 ?ls = Inr ([], 0, 2)"
    by code_simp
  from conservation_of_records [of "''Chr1_RagTag''" 20 20 ?ls ?s "[]" 0 2] run pass
  show ?thesis by simp
qed

lemma process_line_butlast:
  assumes "process_line sdr ts to s l = Inr s'"
    and "\<forall>v\<in>set (butlast (buffer s)). \<not> keep v"
  shows "\<forall>v\<in>set (butlast (buffer s')). \<not> keep v"
  using assms(1)
proof (cases rule: process_line_Inr_cases)
  case (data c p)
  then show ?thesis by auto
qed (use assms(2) in auto)

subsection \<open>The flags of the buffer\<close>

text \<open>
  Claim C10.  After each input line, every entry of the buffer but the one appended last
  has its \<open>keep\<close> flag cleared: only the newest entry can still be printed.
\<close>

theorem pending_keep_invariant:
  "run_lines sdr ts to init_state ls = Inr s \<Longrightarrow> \<forall>v\<in>set (butlast (buffer s)). \<not> keep v"
proof (induction ls arbitrary: s rule: rev_induct)
  case Nil
  then show ?case by (auto simp: init_state_def)
next
  case (snoc l ls)
  then obtain s0 where run: "run_lines sdr ts to init_state ls = Inr s0"
    and step: "process_line sdr ts to s0 l = Inr s"
    by (auto simp: run_lines_snoc)
  from process_line_butlast [OF step snoc.IH [OF run]] show ?case .
qed


theorem pending_keep_invariant_witness:
  "run_lines ''Chr1_RagTag'' 20 20 init_state [vcf_line ''chr1'' ''10'', vcf_line ''chr1'' ''15''] =
     Inr \<lparr>buffer = [\<lparr>line = vcf_line ''chr1'' ''10'', chrom = ''chr1'', pos = 10, keep = False\<rparr>,
                     \<lparr>line = vcf_line ''chr1'' ''15'', chrom = ''chr1'', pos = 15, keep = False\<rparr>],
          printed = [], kept_count = 0, removed_count = 0\<rparr> \<and>
   list_all (\<lambda>v. \<not> keep v)
     (butlast [\<lparr>line = vcf_line ''chr1'' ''10'', chrom = ''chr1'', pos = 10, keep = False\<rparr>,
               \<lparr>line = vcf_line ''chr1'' ''15'', chrom = ''chr1'', pos = 15, keep = False\<rparr>])"
proof -
  let ?ls = "[vcf_line ''chr1'' ''10'', vcf_line ''chr1'' ''15'']"
  let ?s = "\<lparr>buffer = [\<lparr>line = vcf_line ''chr1'' ''10'', chrom = ''chr1'', pos = 10, keep = False\<rparr>,
                     \<lparr>line = vcf_line ''chr1'' ''15'', chrom = ''chr1'', pos = 15, keep = False\<rparr>],
          printed = [], kept_count = 0, removed_count = 0\<rparr>"
  have run: "run_lines ''Chr1_RagTag'' 20 20 init_state ?ls = Inr ?s"
    by code_simp
  from pending_keep_invariant [OF run] run show ?thesis by simp
qed

subsection \<open>A chain of three records\<close>

text \<open>
  Claim C5.  Three records of one chromosome at the positions 10, 15 and 100, under a
  threshold of 20 for that chromosome: the first two are removed, the third is printed,
  and the run reports one record kept and two removed.
\<close>

theorem chain_propagation:
  assumes "record_of l1 = Some (c, 10)" and "record_of l2 = Some (c, 15)"
    and "record_of l3 = Some (c, 100)" and "threshold_of sdr ts to c = 20"
  shows "filter_pass sdr ts to [l1, l2, l3] = Inr ([l3], 1, 2)"
  using assms
  by (simp add: filter_pass_def process_line_record init_state_def in_conflict_def
        drain_def release_def)

theorem chain_propagation_witness:
  "record_of (vcf_line ''chr1'' ''10'') = Some (''chr1'', 10) \<and>
   record_of (vcf_line ''chr1'' ''15'') = Some (''chr1'', 15) \<and>
   record_of (vcf_line ''chr1'' ''100'') = Some (''chr1'', 100) \<and>
   threshold_of ''Chr1_RagTag'' 30 20 ''chr1'' = 20 \<and>
   filter_pass ''Chr1_RagTag'' 30 20
     [vcf_line ''chr1'' ''10'', vcf_line ''chr1'' ''15'', vcf_line ''chr1'' ''100''] =
     Inr ([vcf_line ''chr1'' ''100''], 1, 2)"
proof -
  have r1: "record_of (vcf_line ''chr1'' ''10'') = Some (''chr1'', 10)" by code_simp
  have r2: "record_of (vcf_line ''chr1'' ''15'') = Some (''chr1'', 15)" by code_simp
  have r3: "record_of (vcf_line ''chr1'' ''100'') = Some (''chr1'', 100)" by code_simp
  have t: "threshold_of ''Chr1_RagTag'' 30 20 ''chr1'' = 20" by code_simp
  from chain_propagation [OF r1 r2 r3 t] r1 r2 r3 t show ?thesis by simp
qed

lemma unkeep_eqD:
  "v\<lparr>keep := False\<rparr> = w\<lparr>keep := False\<rparr> \<Longrightarrow> pos v = pos w \<and> chrom v = chrom w \<and> line v = line w"
  by (cases v, cases w) simp

lemma process_line_record_buffer:
  assumes "record_of l = Some (c, p)" and "t = threshold_of sdr ts to c"
  shows "\<exists>s'. process_line sdr ts to s l = Inr s' \<and>
           butlast (buffer s') =
             map (\<lambda>v. v\<lparr>keep := False\<rparr>) (filter (in_conflict c p t) (buffer s)) \<and>
           keep (last (buffer s')) = (\<forall>v\<in>set (buffer s). \<not> in_conflict c p t v)"
  using assms by (simp add: process_line_record)

subsection \<open>The boundary of the conflict test\<close>

text \<open>
  Claim C4.  Let \<open>prev\<close> be an entry of the buffer on the chromosome of the incoming
  record, and \<open>t\<close> the threshold of that chromosome.  A distance equal to \<open>t\<close> is a
  conflict: \<open>prev\<close> stays in the buffer with its flag cleared, and the incoming record,
  appended last, has its flag cleared too.  The entry stays in the buffer exactly when
  the distance is at most \<open>t\<close>; it is released only when the distance is greater.
\<close>

theorem conflict_boundary:
  assumes "record_of l = Some (c, p)" and "prev \<in> set (buffer s)" and "chrom prev = c"
    and "t = threshold_of sdr ts to c"
  shows "\<exists>s'. process_line sdr ts to s l = Inr s' \<and>
           (p - pos prev = t \<longrightarrow>
              prev\<lparr>keep := False\<rparr> \<in> set (butlast (buffer s')) \<and> \<not> keep (last (buffer s'))) \<and>
           (prev\<lparr>keep := False\<rparr> \<in> set (butlast (buffer s')) \<longleftrightarrow> p - pos prev \<le> t) \<and>
           (p - pos prev \<le> t \<longrightarrow> \<not> keep (last (buffer s')))"
proof -
  from process_line_record_buffer [OF assms(1) assms(4)]
  obtain s' where step: "process_line sdr ts to s l = Inr s'"
    and bl: "butlast (buffer s') =
               map (\<lambda>v. v\<lparr>keep := False\<rparr>) (filter (in_conflict c p t) (buffer s))"
    and lk: "keep (last (buffer s')) = (\<forall>v\<in>set (buffer s). \<not> in_conflict c p t v)"
    by blast
  have conflict: "in_conflict c p t prev \<longleftrightarrow> p - pos prev \<le> t"
    using assms(3) by (simp add: in_conflict_def)
  have stays: "prev\<lparr>keep := False\<rparr> \<in> set (butlast (buffer s')) \<longleftrightarrow> p - pos prev \<le> t"
  proof
    assume "prev\<lparr>keep := False\<rparr> \<in> set (butlast (buffer s'))"
    then obtain x where x: "in_conflict c p t x" and eq: "prev\<lparr>keep := False\<rparr> = x\<lparr>keep := False\<rparr>"
      unfolding bl by auto
    from unkeep_eqD [OF eq] x show "p - pos prev \<le> t"
      by (simp add: in_conflict_def)
  next
    assume "p - pos prev \<le> t"
    with conflict assms(2) show "prev\<lparr>keep := False\<rparr> \<in> set (butlast (buffer s'))"
      unfolding bl by simp
  qed
  have marks: "p - pos prev \<le> t \<longrightarrow> \<not> keep (last (buffer s'))"
    using conflict assms(2) lk by blast
  from step stays marks show ?thesis by auto
qed

theorem conflict_boundary_witness:
  "record_of (vcf_line ''chr1'' ''30'') = Some (''chr1'', 30) \<and>
   (\<exists>s'. process_line ''Chr1_RagTag'' 30 20
           \<lparr>buffer = [\<lparr>line = vcf_line ''chr1'' ''10'', chrom = ''chr1'', pos = 10, keep = True\<rparr>],
            printed = [], kept_count = 0, removed_count = 0\<rparr>
           (vcf_line ''chr1'' ''30'') = Inr s' \<and>
         \<lparr>line = vcf_line ''chr1'' ''10'', chrom = ''chr1'', pos = 10, keep = False\<rparr>
            \<in> set (butlast (buffer s')) \<and>
         \<not> keep (last (buffer s')))"
proof -
  let ?prev = "\<lparr>line = vcf_line ''chr1'' ''10'', chrom = ''chr1'', pos = 10, keep = True\<rparr>"
  let ?s = "\<lparr>buffer = [?prev], printed = [], kept_count = 0, removed_count = 0\<rparr>"
  have r: "record_of (vcf_line ''chr1'' ''30'') = Some (''chr1'', 30)" by code_simp
  have m: "?prev \<in> set (buffer ?s)" by simp
  have c: "chrom ?prev = ''chr1''" by simp
  have t: "20 = threshold_of ''Chr1_RagTag'' 30 20 ''chr1''" by code_simp
  from conflict_boundary [OF r m c t] r show ?thesis by simp
qed

section \<open>Order and spacing of the input\<close>

lemma records_Cons:
  "records (l # ls) = (case record_of l of None \<Rightarrow> records ls | Some r \<Rightarrow> r # records ls)"
  by simp

lemma records_append: "records (xs @ ys) = records xs @ records ys"
  by (induction xs) (auto split: option.splits)

lemma record_lines_Cons:
  "record_lines (l # ls) = (if is_record l then l # record_lines ls else record_lines ls)"
  by (simp add: record_lines_def)

lemma length_records: "length (records ls) = length (record_lines ls)"
  by (induction ls) (auto simp: record_lines_def is_record_def split: option.splits)

lemma spaced_far_apart:
  "nondecreasing_per_chrom rs \<Longrightarrow> pairwise_spaced th rs \<Longrightarrow> far_apart th rs"
  by (induction rs) (auto simp: list_all_iff)

lemma far_apart_appendD:
  "far_apart th (xs @ r # ys) \<Longrightarrow>
     (\<forall>x\<in>set xs. fst x = fst r \<longrightarrow> th (fst r) < snd r - snd x) \<and> far_apart th (r # ys)"
  by (induction xs) (auto simp: list_all_iff)

lemma far_apart_no_conflict:
  assumes "far_apart th (map key vs @ (c, p) # rs)"
  shows "\<forall>v\<in>set vs. \<not> in_conflict c p (th c) v"
  using far_apart_appendD [OF assms] by (fastforce simp: in_conflict_def key_def)

lemma is_record_data: "is_record l \<Longrightarrow> is_data l"
  by (auto simp: is_record_def record_of_def is_data_def split: if_splits)

lemma filter_data_lines:
  "\<forall>v\<in>set vs. is_data (line v) \<Longrightarrow> filter is_data (map line vs) = map line vs"
  by (induction vs) auto

lemma filter_hash_lines:
  "\<forall>v\<in>set vs. is_data (line v) \<Longrightarrow> filter startswith_hash (map line vs) = []"
  by (induction vs) (auto simp: is_data_def)

lemma run_far_apart:
  assumes "\<forall>l\<in>set ls. \<not> too_short l"
    and "far_apart (threshold_of sdr ts to) (map key (buffer s) @ records ls)"
    and "all_pending s"
  shows "\<exists>s'. run_lines sdr ts to s ls = Inr s' \<and> all_pending s' \<and>
           removed_count s' = removed_count s \<and>
           kept_count s' + length (buffer s') =
             kept_count s + length (buffer s) + length (record_lines ls) \<and>
           filter is_data (printed s') @ map line (buffer s') =
             filter is_data (printed s) @ map line (buffer s) @ record_lines ls \<and>
           filter startswith_hash (printed s') =
             filter startswith_hash (printed s) @ filter startswith_hash ls"
  using assms
proof (induction ls arbitrary: s)
  case Nil
  then show ?case by (simp add: record_lines_def)
next
  case (Cons l ls)
  have short: "\<forall>l\<in>set ls. \<not> too_short l" and nshort: "\<not> too_short l"
    using Cons.prems(1) by auto
  show ?case
  proof (cases "startswith_hash l")
    case True
    let ?s1 = "s\<lparr>printed := printed s @ [l]\<rparr>"
    have step: "process_line sdr ts to s l = Inr ?s1"
      using True by (rule process_line_header)
    have norec: "record_of l = None" "\<not> is_record l" "\<not> is_data l"
      using True by (auto simp: record_of_def is_record_def is_data_def)
    have "far_apart (threshold_of sdr ts to) (map key (buffer ?s1) @ records ls)"
      using Cons.prems(2) norec by (simp add: records_Cons)
    moreover have "all_pending ?s1"
      using Cons.prems(3) by (simp add: all_pending_def)
    ultimately obtain s' where s': "run_lines sdr ts to ?s1 ls = Inr s'" "all_pending s'"
      "removed_count s' = removed_count ?s1"
      "kept_count s' + length (buffer s') =
         kept_count ?s1 + length (buffer ?s1) + length (record_lines ls)"
      "filter is_data (printed s') @ map line (buffer s') =
         filter is_data (printed ?s1) @ map line (buffer ?s1) @ record_lines ls"
      "filter startswith_hash (printed s') =
         filter startswith_hash (printed ?s1) @ filter startswith_hash ls"
      using Cons.IH [OF short, of ?s1] by blast
    have "run_lines sdr ts to s (l # ls) = Inr s'"
      using step s'(1) by simp
    with s' norec True show ?thesis
      by (simp add: record_lines_Cons)
  next
    case nh: False
    show ?thesis
    proof (cases "record_of l")
      case None
      have step: "process_line sdr ts to s l = Inr s"
        using nh None nshort by (rule process_line_skip)
      have "far_apart (threshold_of sdr ts to) (map key (buffer s) @ records ls)"
        using Cons.prems(2) None by (simp add: records_Cons)
      from Cons.IH [OF short this Cons.prems(3)]
      obtain s' where s': "run_lines sdr ts to s ls = Inr s'" "all_pending s'"
        "removed_count s' = removed_count s"
        "kept_count s' + length (buffer s') =
           kept_count s + length (buffer s) + length (record_lines ls)"
        "filter is_data (printed s') @ map line (buffer s') =
           filter is_data (printed s) @ map line (buffer s) @ record_lines ls"
        "filter startswith_hash (printed s') =
           filter startswith_hash (printed s) @ filter startswith_hash ls"
        by blast
      have "run_lines sdr ts to s (l # ls) = Inr s'"
        using step s'(1) by simp
      with s' None nh show ?thesis
        by (simp add: record_lines_Cons is_record_def)
    next
      case (Some r)
      obtain c p where r: "r = (c, p)" by (cases r)
      let ?th = "threshold_of sdr ts to"
      let ?cur = "\<lparr>line = l, chrom = c, pos = p, keep = True\<rparr>"
      let ?s1 = "(fold release (buffer s) s)\<lparr>buffer := [?cur]\<rparr>"
      have far: "far_apart ?th (map key (buffer s) @ (c, p) # records ls)"
        using Cons.prems(2) Some r by (simp add: records_Cons)
      have nc: "\<forall>v\<in>set (buffer s). \<not> in_conflict c p (?th c) v"
        using far by (rule far_apart_no_conflict)
      then have f1: "filter (in_conflict c p (?th c)) (buffer s) = []"
        and f2: "filter (\<lambda>v. \<not> in_conflict c p (?th c) v) (buffer s) = buffer s"
        by (simp_all add: filter_empty_conv)
      have step: "process_line sdr ts to s l = Inr ?s1"
        using Some r nc by (simp add: process_line_record f1 f2)
      have allk: "\<forall>v\<in>set (buffer s). keep v" and alld: "\<forall>v\<in>set (buffer s). is_data (line v)"
        using Cons.prems(3) by (auto simp: all_pending_def)
      have fk: "filter keep (buffer s) = buffer s" and fnk: "filter (\<lambda>v. \<not> keep v) (buffer s) = []"
        using allk by (simp_all add: filter_empty_conv)
      have "far_apart ?th (map key (buffer ?s1) @ records ls)"
        using far_apart_appendD [OF far] by (simp add: key_def)
      moreover have "all_pending ?s1"
        using nh by (simp add: all_pending_def is_data_def)
      ultimately obtain s' where s': "run_lines sdr ts to ?s1 ls = Inr s'" "all_pending s'"
        "removed_count s' = removed_count ?s1"
        "kept_count s' + length (buffer s') =
           kept_count ?s1 + length (buffer ?s1) + length (record_lines ls)"
        "filter is_data (printed s') @ map line (buffer s') =
           filter is_data (printed ?s1) @ map line (buffer ?s1) @ record_lines ls"
        "filter startswith_hash (printed s') =
           filter startswith_hash (printed ?s1) @ filter startswith_hash ls"
        using Cons.IH [OF short, of ?s1] by blast
      have run: "run_lines sdr ts to s (l # ls) = Inr s'"
        using step s'(1) by simp
      have rec: "is_record l" using Some by (simp add: is_record_def)
      have p1: "printed ?s1 = printed s @ map line (buffer s)"
        by (simp add: fold_release_printed fk)
      have k1: "kept_count ?s1 = kept_count s + length (buffer s)"
        by (simp add: fold_release_kept fk)
      have r1: "removed_count ?s1 = removed_count s"
        by (simp add: fold_release_removed fnk)
      show ?thesis
        using run s'(2-) rec nh p1 k1 r1 filter_data_lines [OF alld] filter_hash_lines [OF alld]
        by (simp add: record_lines_Cons)
    qed
  qed
qed

lemma far_apart_snoc:
  "far_apart th (xs @ [r]) \<longleftrightarrow>
     far_apart th xs \<and> (\<forall>x\<in>set xs. fst x = fst r \<longrightarrow> th (fst r) < snd r - snd x)"
  by (induction xs) (auto simp: list_all_iff)

lemma nondecreasing_snoc:
  "nondecreasing_per_chrom (xs @ [r]) \<longleftrightarrow>
     nondecreasing_per_chrom xs \<and> (\<forall>x\<in>set xs. fst x = fst r \<longrightarrow> snd x \<le> snd r)"
  by (induction xs) (auto simp: list_all_iff)

lemma chrom_contiguous_snoc:
  "chrom_contiguous (cs @ [x]) \<longleftrightarrow>
     chrom_contiguous cs \<and> (cs = [] \<or> last cs = x \<or> x \<notin> set cs)"
proof (induction cs rule: chrom_contiguous.induct)
  case 1
  then show ?case by simp
next
  case (2 c)
  then show ?case by auto
next
  case (3 c d cs)
  have "last (d # cs) \<in> set (d # cs)" by (rule last_in_set) simp
  with 3 show ?case by auto
qed

lemma keep_only_last:
  assumes "\<forall>v\<in>set (butlast vs). \<not> keep v"
  shows "filter keep (filter P vs) =
           (if vs \<noteq> [] \<and> keep (last vs) \<and> P (last vs) then [last vs] else [])"
proof (cases vs rule: rev_cases)
  case Nil
  then show ?thesis by simp
next
  case (snoc ws w)
  with assms have "filter keep (filter P ws) = []"
    by (auto simp: filter_empty_conv)
  with snoc show ?thesis by simp
qed

lemma records_of_entries:
  "\<forall>v\<in>set vs. record_of (line v) = Some (key v) \<Longrightarrow> records (map line vs) = map key vs"
  by (induction vs) auto

lemma record_lines_of_entries:
  "\<forall>v\<in>set vs. record_of (line v) = Some (key v) \<Longrightarrow> record_lines (map line vs) = map line vs"
  by (induction vs) (auto simp: record_lines_def is_record_def)

lemma record_lines_append: "record_lines (xs @ ys) = record_lines xs @ record_lines ys"
  by (simp add: record_lines_def)

lemma headers_then_data:
  assumes "\<forall>l\<in>set hs. startswith_hash l" and "\<forall>l\<in>set ds. is_data l"
  shows "filter startswith_hash (hs @ ds) = hs" and "filter is_data (hs @ ds) = ds"
  using assms by (auto simp: filter_empty_conv filter_id_conv is_data_def)

lemma headers_first_iff:
  "headers_first ls \<longleftrightarrow> ls = filter startswith_hash ls @ filter is_data ls"
proof
  assume hf: "headers_first ls"
  let ?H = "takeWhile startswith_hash ls" and ?D = "dropWhile startswith_hash ls"
  have D: "\<forall>l\<in>set ?D. is_data l"
    using hf by (simp add: headers_first_def list_all_iff)
  have H: "\<forall>l\<in>set ?H. startswith_hash l"
    by (auto dest: set_takeWhileD)
  have ls: "ls = ?H @ ?D" by simp
  from headers_then_data [OF H D] have "?H @ ?D = filter startswith_hash (?H @ ?D) @ filter is_data (?H @ ?D)"
    by simp
  then show "ls = filter startswith_hash ls @ filter is_data ls"
    by simp
next
  assume eq: "ls = filter startswith_hash ls @ filter is_data ls"
  let ?H = "filter startswith_hash ls" and ?D = "filter is_data ls"
  have "dropWhile startswith_hash (?H @ ?D) = dropWhile startswith_hash ?D"
    by (rule dropWhile_append2) simp
  moreover have "\<forall>l\<in>set (dropWhile startswith_hash ?D). is_data l"
    by (auto dest: set_dropWhileD)
  ultimately have "list_all is_data (dropWhile startswith_hash (?H @ ?D))"
    by (simp add: list_all_iff)
  with eq show "headers_first ls" by (simp add: headers_first_def)
qed

lemma drain_all_pending:
  assumes "all_pending s"
  shows "printed (drain s) = printed s @ map line (buffer s)"
    and "kept_count (drain s) = kept_count s + length (buffer s)"
    and "removed_count (drain s) = removed_count s"
proof -
  have fk: "filter keep (buffer s) = buffer s" and fnk: "filter (\<lambda>v. \<not> keep v) (buffer s) = []"
    using assms by (auto simp: all_pending_def filter_empty_conv filter_id_conv)
  show "printed (drain s) = printed s @ map line (buffer s)"
    by (simp add: drain_def fold_release_printed fk)
  show "kept_count (drain s) = kept_count s + length (buffer s)"
    by (simp add: drain_def fold_release_kept fk)
  show "removed_count (drain s) = removed_count s"
    by (simp add: drain_def fold_release_removed fnk)
qed

lemma far_apart_pass:
  assumes short: "\<forall>l\<in>set ls. \<not> too_short l"
    and far: "far_apart (threshold_of sdr ts to) (records ls)"
  shows "\<exists>out. filter_pass sdr ts to ls = Inr (out, length (record_lines ls), 0) \<and>
           filter is_data out = record_lines ls \<and>
           filter startswith_hash out = filter startswith_hash ls"
proof -
  have "far_apart (threshold_of sdr ts to) (map key (buffer init_state) @ records ls)"
    using far by (simp add: init_state_def)
  moreover have "all_pending init_state"
    by (simp add: all_pending_def init_state_def)
  ultimately obtain s' where run: "run_lines sdr ts to init_state ls = Inr s'"
    and pend: "all_pending s'"
    and rem: "removed_count s' = removed_count init_state"
    and kept: "kept_count s' + length (buffer s') =
       kept_count init_state + length (buffer init_state) + length (record_lines ls)"
    and data: "filter is_data (printed s') @ map line (buffer s') =
       filter is_data (printed init_state) @ map line (buffer init_state) @ record_lines ls"
    and hdr: "filter startswith_hash (printed s') =
       filter startswith_hash (printed init_state) @ filter startswith_hash ls"
    using run_far_apart [OF short, of sdr ts to init_state] by blast
  have alld: "\<forall>v\<in>set (buffer s'). is_data (line v)"
    using pend by (simp add: all_pending_def)
  have pass: "filter_pass sdr ts to ls =
      Inr (printed (drain s'), kept_count (drain s'), removed_count (drain s'))"
    using run by (simp add: filter_pass_def Let_def)
  have "kept_count (drain s') = length (record_lines ls)"
    using kept drain_all_pending(2) [OF pend] by (simp add: init_state_def)
  moreover have "removed_count (drain s') = 0"
    using rem drain_all_pending(3) [OF pend] by (simp add: init_state_def)
  moreover have "filter is_data (printed (drain s')) = record_lines ls"
    using data drain_all_pending(1) [OF pend] filter_data_lines [OF alld]
    by (simp add: init_state_def)
  moreover have "filter startswith_hash (printed (drain s')) = filter startswith_hash ls"
    using hdr drain_all_pending(1) [OF pend] filter_hash_lines [OF alld]
    by (simp add: init_state_def)
  ultimately show ?thesis using pass by simp
qed

subsection \<open>Pass-through of well-spaced input\<close>

text \<open>
  Claim C3, amended.  Let no data line of the input have fewer than two fields, let the positions
  of each chromosome never decrease, and let any two records of a chromosome be farther
  apart than the threshold of that chromosome.  Then the pass completes, removes nothing
  and counts every record as kept; the data lines it prints are exactly the lines of the
  input that carry a record, each verbatim and in the order of the input, and the header
  lines it prints are those of the input, in their order.
\<close>

theorem pass_through:
  assumes "list_all (\<lambda>l. \<not> too_short l) ls"
    and "nondecreasing_per_chrom (records ls)"
    and "pairwise_spaced (threshold_of sdr ts to) (records ls)"
  shows "\<exists>out. filter_pass sdr ts to ls = Inr (out, length (record_lines ls), 0) \<and>
           filter is_data out = record_lines ls \<and>
           filter startswith_hash out = filter startswith_hash ls"
proof -
  have "\<forall>l\<in>set ls. \<not> too_short l"
    using assms(1) by (simp add: list_all_iff)
  moreover have "far_apart (threshold_of sdr ts to) (records ls)"
    using assms(2,3) by (rule spaced_far_apart)
  ultimately show ?thesis by (rule far_apart_pass)
qed

theorem pass_through_witness:
  "list_all (\<lambda>l. \<not> too_short l)
     [header_line, vcf_line ''chr1'' ''10'', vcf_line ''chr2'' ''5'', vcf_line ''chr1'' ''100''] \<and>
   nondecreasing_per_chrom (records
     [header_line, vcf_line ''chr1'' ''10'', vcf_line ''chr2'' ''5'', vcf_line ''chr1'' ''100'']) \<and>
   pairwise_spaced (threshold_of ''Chr1_RagTag'' 20 20) (records
     [header_line, vcf_line ''chr1'' ''10'', vcf_line ''chr2'' ''5'', vcf_line ''chr1'' ''100'']) \<and>
   filter_pass ''Chr1_RagTag'' 20 20
     [header_line, vcf_line ''chr1'' ''10'', vcf_line ''chr2'' ''5'', vcf_line ''chr1'' ''100''] =
     Inr ([header_line, vcf_line ''chr1'' ''10'', vcf_line ''chr2'' ''5'', vcf_line ''chr1'' ''100''],
          3, 0)"
proof -
  let ?ls = "[header_line, vcf_line ''chr1'' ''10'', vcf_line ''chr2'' ''5'', vcf_line ''chr1'' ''100'']"
  have a: "list_all (\<lambda>l. \<not> too_short l) ?ls" by code_simp
  have b: "nondecreasing_per_chrom (records ?ls)" by code_simp
  have c: "pairwise_spaced (threshold_of ''Chr1_RagTag'' 20 20) (records ?ls)" by code_simp
  have d: "filter_pass ''Chr1_RagTag'' 20 20 ?ls = Inr (?ls, 3, 0)" by code_simp
  from pass_through [OF a b c] a b c d show ?thesis by simp
qed

text \<open>
  Without the condition on the fields, and for all data lines instead of those that carry
  a record, the property fails.  An empty line between two records that are far apart
  aborts the pass with \<^verbatim>\<open>IndexError\<close>; and of three data lines in order and far apart,
  the one whose position is \<^verbatim>\<open>abc\<close> is not printed.
\<close>

theorem pass_through_counterexample:
  "nondecreasing_per_chrom (records
     [vcf_line ''chr1'' ''10'', [CHR 0x0A], vcf_line ''chr1'' ''100'']) \<and>
   pairwise_spaced (threshold_of ''Chr1_RagTag'' 20 20) (records
     [vcf_line ''chr1'' ''10'', [CHR 0x0A], vcf_line ''chr1'' ''100'']) \<and>
   filter_pass ''Chr1_RagTag'' 20 20
     [vcf_line ''chr1'' ''10'', [CHR 0x0A], vcf_line ''chr1'' ''100''] = Inl IndexError \<and>
   nondecreasing_per_chrom (records
     [vcf_line ''chr1'' ''10'', vcf_line ''chr1'' ''abc'', vcf_line ''chr1'' ''100'']) \<and>
   pairwise_spaced (threshold_of ''Chr1_RagTag'' 20 20) (records
     [vcf_line ''chr1'' ''10'', vcf_line ''chr1'' ''abc'', vcf_line ''chr1'' ''100'']) \<and>
   filter is_data
     [vcf_line ''chr1'' ''10'', vcf_line ''chr1'' ''abc'', vcf_line ''chr1'' ''100''] =
     [vcf_line ''chr1'' ''10'', vcf_line ''chr1'' ''abc'', vcf_line ''chr1'' ''100''] \<and>
   filter_pass ''Chr1_RagTag'' 20 20
     [vcf_line ''chr1'' ''10'', vcf_line ''chr1'' ''abc'', vcf_line ''chr1'' ''100''] =
     Inr ([vcf_line ''chr1'' ''10'', vcf_line ''chr1'' ''100''], 2, 0)"
  by code_simp

section \<open>Idempotence\<close>

lemma nondecreasing_last:
  assumes "nondecreasing_per_chrom rs" and "e \<in> set rs" and "fst e = fst (last rs)"
  shows "snd e \<le> snd (last rs)"
proof -
  from assms(2) have ne: "rs \<noteq> []" by auto
  then have rs: "rs = butlast rs @ [last rs]" by simp
  with assms(1) have "\<forall>x\<in>set (butlast rs). fst x = fst (last rs) \<longrightarrow> snd x \<le> snd (last rs)"
    using nondecreasing_snoc [of "butlast rs" "last rs"] by simp
  moreover from rs assms(2) have "e \<in> set (butlast rs) \<or> e = last rs"
    by (metis Un_iff empty_iff empty_set insert_iff list.simps(15) set_append)
  ultimately show ?thesis using assms(3) by auto
qed

lemma grouped_inv_init: "grouped_inv th [] init_state"
  by (simp add: grouped_inv_def init_state_def record_lines_def)

lemma grouped_inv_header:
  assumes inv: "grouped_inv th ls s" and h: "startswith_hash l"
  shows "grouped_inv th (ls @ [l]) (s\<lparr>printed := printed s @ [l]\<rparr>)"
proof -
  have nr: "record_of l = None" "\<not> is_record l"
    using h by (auto simp: record_of_def is_record_def)
  have "records (printed s @ [l]) = records (printed s)"
    using nr by (simp add: records_append)
  moreover have "records (ls @ [l]) = records ls"
    using nr by (simp add: records_append)
  moreover have "record_lines (printed s @ [l]) = record_lines (printed s)"
    using nr by (simp add: record_lines_def)
  ultimately show ?thesis
    using inv h by (simp add: grouped_inv_def)
qed

lemma grouped_inv_skip:
  assumes inv: "grouped_inv th ls s" and nr: "\<not> is_record l"
  shows "grouped_inv th (ls @ [l]) s"
proof -
  have "records (ls @ [l]) = records ls"
    using nr by (cases "record_of l") (simp_all add: records_append is_record_def)
  then show ?thesis using inv by (simp add: grouped_inv_def)
qed

lemma grouped_inv_record:
  assumes inv: "grouped_inv th ls s"
    and rec: "record_of l = Some (c, p)"
    and nd: "nondecreasing_per_chrom (records ls @ [(c, p)])"
    and cc: "chrom_contiguous (map fst (records ls) @ [c])"
    and s': "s' = (fold release (filter (\<lambda>v. \<not> in_conflict c p (th c) v) (buffer s)) s)
          \<lparr>buffer := map (\<lambda>v. v\<lparr>keep := False\<rparr>) (filter (in_conflict c p (th c)) (buffer s)) @
                     [\<lparr>line = l, chrom = c, pos = p,
                       keep = (\<forall>v\<in>set (buffer s). \<not> in_conflict c p (th c) v)\<rparr>]\<rparr>"
  shows "grouped_inv th (ls @ [l]) s'"
proof -
  let ?B = "buffer s"
  let ?P = "in_conflict c p (th c)"
  let ?R = "filter keep (filter (\<lambda>v. \<not> ?P v) ?B)"
  let ?E = "records (printed s)"
  let ?cur = "\<lparr>line = l, chrom = c, pos = p, keep = (\<forall>v\<in>set ?B. \<not> ?P v)\<rparr>"
  from inv have ic: "\<forall>v\<in>set ?B. record_of (line v) = Some (key v)"
    and id: "\<forall>x\<in>set (printed s). startswith_hash x \<or> is_record x"
    and ib: "\<forall>v\<in>set (butlast ?B). \<not> keep v"
    and ih: "far_apart th ?E"
    and ii: "if records ls = [] then ?B = []
             else ?B \<noteq> [] \<and> key (last ?B) = last (records ls)"
    and ij: "set ?E \<subseteq> set (records ls)"
    and il: "?B \<noteq> [] \<and> keep (last ?B) \<longrightarrow>
         (\<forall>e\<in>set ?E. fst e = chrom (last ?B) \<longrightarrow> th (fst e) < pos (last ?B) - snd e)"
    and "if": "kept_count s = length (record_lines (printed s))"
    by (simp_all add: grouped_inv_def)
  have R: "?R = (if ?B \<noteq> [] \<and> keep (last ?B) \<and> \<not> ?P (last ?B) then [last ?B] else [])"
    using ib by (rule keep_only_last)
  have Rsub: "set ?R \<subseteq> set ?B" by auto
  have pr: "printed s' = printed s @ map line ?R"
    by (simp add: s' fold_release_printed)
  have bu: "buffer s' = map (\<lambda>v. v\<lparr>keep := False\<rparr>) (filter ?P ?B) @ [?cur]"
    by (simp add: s')
  have kc: "kept_count s' = kept_count s + length ?R"
    by (simp add: s' fold_release_kept)
  have Rc: "\<forall>v\<in>set ?R. record_of (line v) = Some (key v)"
    using ic Rsub by blast
  have recR: "records (map line ?R) = map key ?R"
    using Rc by (rule records_of_entries)
  have rlR: "record_lines (map line ?R) = map line ?R"
    using Rc by (rule record_lines_of_entries)
  have E': "records (printed s') = ?E @ map key ?R"
    by (simp only: pr records_append recR)
  have rls: "records (ls @ [l]) = records ls @ [(c, p)]"
    using rec by (simp add: records_append)
  have lastB: "?B \<noteq> [] \<Longrightarrow> key (last ?B) = last (records ls) \<and> records ls \<noteq> []"
    using ii by (auto split: if_splits)
  have c': "\<forall>v\<in>set (buffer s'). record_of (line v) = Some (key v)"
    using ic rec by (auto simp: bu key_def)
  have d': "\<forall>x\<in>set (printed s'). startswith_hash x \<or> is_record x"
    using id Rc by (auto simp: pr is_record_def)
  have b': "\<forall>v\<in>set (butlast (buffer s')). \<not> keep v"
    by (simp add: bu)
  have h': "far_apart th (records (printed s'))"
  proof (cases "?R = []")
    case True
    then show ?thesis using ih by (simp add: E')
  next
    case False
    then have R1: "?R = [last ?B]" and ne: "?B \<noteq> []" and k: "keep (last ?B)"
      using R by (auto split: if_splits)
    from il ne k have "\<forall>e\<in>set ?E. fst e = chrom (last ?B) \<longrightarrow>
        th (chrom (last ?B)) < pos (last ?B) - snd e"
      by auto
    then have "far_apart th (?E @ [key (last ?B)])"
      using ih by (simp add: far_apart_snoc key_def)
    then show ?thesis
      unfolding E' R1 by simp
  qed
  have i': "if records (ls @ [l]) = [] then buffer s' = []
            else buffer s' \<noteq> [] \<and> key (last (buffer s')) = last (records (ls @ [l]))"
    by (simp add: rls bu key_def)
  have keyR: "set (map key ?R) \<subseteq> set (records ls)"
  proof (cases "?R = []")
    case True
    then show ?thesis by simp
  next
    case False
    then have R1: "?R = [last ?B]" and ne: "?B \<noteq> []"
      using R by (auto split: if_splits)
    from lastB [OF ne] have "key (last ?B) \<in> set (records ls)"
      by (metis last_in_set)
    then show ?thesis unfolding R1 by simp
  qed
  have j': "set (records (printed s')) \<subseteq> set (records (ls @ [l]))"
    using ij keyR by (auto simp: E' rls)
  have l': "buffer s' \<noteq> [] \<and> keep (last (buffer s')) \<longrightarrow>
      (\<forall>e\<in>set (records (printed s')).
          fst e = chrom (last (buffer s')) \<longrightarrow> th (fst e) < pos (last (buffer s')) - snd e)"
  proof (intro impI ballI)
    fix e
    assume k: "buffer s' \<noteq> [] \<and> keep (last (buffer s'))"
      and e: "e \<in> set (records (printed s'))"
      and fe: "fst e = chrom (last (buffer s'))"
    from k have nc: "\<forall>v\<in>set ?B. \<not> ?P v" by (simp add: bu)
    from fe have fc: "fst e = c" by (simp add: bu)
    have "th c < p - snd e"
    proof (cases "e \<in> set ?E")
      case True
      with ij have ers: "e \<in> set (records ls)" by blast
      then have rne: "records ls \<noteq> []" by auto
      with ii have ne: "?B \<noteq> []" and kl: "key (last ?B) = last (records ls)"
        by (auto split: if_splits)
      from ne have bin: "last ?B \<in> set ?B" by simp
      with nc have np: "\<not> ?P (last ?B)" by blast
      show ?thesis
      proof (cases "chrom (last ?B) = c")
        case same: True
        with np have far: "th c < p - pos (last ?B)"
          by (simp add: in_conflict_def)
        from nd have ndl: "nondecreasing_per_chrom (records ls)"
          by (simp add: nondecreasing_snoc)
        from kl same fc have "fst e = fst (last (records ls))"
          by (metis fst_conv key_def)
        from nondecreasing_last [OF ndl ers this] kl have "snd e \<le> pos (last ?B)"
          by (metis snd_conv key_def)
        with far show ?thesis by linarith
      next
        case diff: False
        from kl have "fst (last (records ls)) = chrom (last ?B)"
          by (metis fst_conv key_def)
        with rne have "last (map fst (records ls)) = chrom (last ?B)"
          by (simp add: last_map)
        with diff cc rne have "c \<notin> set (map fst (records ls))"
          by (auto simp: chrom_contiguous_snoc)
        with ers fc show ?thesis by force
      qed
    next
      case False
      with e have eR: "e \<in> set (map key ?R)" unfolding E' by auto
      have "?R \<noteq> []"
      proof
        assume emp: "?R = []"
        from eR show False unfolding emp by simp
      qed
      then have R1: "?R = [last ?B]" and np: "\<not> ?P (last ?B)"
        using R by (auto split: if_splits)
      from eR have "e = key (last ?B)" unfolding R1 by simp
      with fc np show ?thesis by (simp add: key_def in_conflict_def)
    qed
    with fc show "th (fst e) < pos (last (buffer s')) - snd e"
      by (simp add: bu)
  qed
  have f': "kept_count s' = length (record_lines (printed s'))"
  proof -
    have "length (record_lines (printed s')) = length (record_lines (printed s)) + length ?R"
      unfolding pr record_lines_append rlR by simp
    then show ?thesis unfolding kc "if" by simp
  qed
  from c' d' b' h' i' j' l' f' show ?thesis
    unfolding grouped_inv_def by blast
qed

lemma grouped_inv_step:
  assumes inv: "grouped_inv (threshold_of sdr ts to) ls s"
    and step: "process_line sdr ts to s l = Inr s'"
    and nd: "nondecreasing_per_chrom (records (ls @ [l]))"
    and cc: "chrom_contiguous (map fst (records (ls @ [l])))"
  shows "grouped_inv (threshold_of sdr ts to) (ls @ [l]) s'"
  using step
proof (cases rule: process_line_Inr_cases)
  case header
  with inv show ?thesis by (simp add: grouped_inv_header)
next
  case skip
  with inv show ?thesis by (simp add: grouped_inv_skip)
next
  case (data c p)
  have rls: "records (ls @ [l]) = records ls @ [(c, p)]"
    using data(1) by (simp add: records_append)
  from nd have nd': "nondecreasing_per_chrom (records ls @ [(c, p)])"
    by (simp only: rls)
  from cc have cc': "chrom_contiguous (map fst (records ls) @ [c])"
    by (simp add: rls)
  from inv data(1) nd' cc' data(3) show ?thesis
    by (rule grouped_inv_record)
qed

lemma run_grouped_inv:
  assumes "run_lines sdr ts to init_state ls = Inr s"
    and "nondecreasing_per_chrom (records ls)"
    and "chrom_contiguous (map fst (records ls))"
  shows "grouped_inv (threshold_of sdr ts to) ls s"
  using assms
proof (induction ls arbitrary: s rule: rev_induct)
  case Nil
  then show ?case using grouped_inv_init by simp
next
  case (snoc l ls)
  from snoc.prems(1) obtain s0 where run: "run_lines sdr ts to init_state ls = Inr s0"
    and step: "process_line sdr ts to s0 l = Inr s"
    by (auto simp: run_lines_snoc)
  have rl: "records (ls @ [l]) = records ls \<or> (\<exists>r. records (ls @ [l]) = records ls @ [r])"
    by (cases "record_of l") (simp_all add: records_append)
  have nd: "nondecreasing_per_chrom (records ls)"
    using rl snoc.prems(2) by (auto simp: nondecreasing_snoc)
  have cc: "chrom_contiguous (map fst (records ls))"
    using rl snoc.prems(3) by (auto simp: chrom_contiguous_snoc)
  from snoc.IH [OF run nd cc] step snoc.prems(2,3) show ?case
    by (rule grouped_inv_step)
qed

lemma grouped_inv_drain:
  assumes "grouped_inv th ls s"
  shows "far_apart th (records (printed (drain s)))"
    and "\<forall>l\<in>set (printed (drain s)). startswith_hash l \<or> is_record l"
    and "kept_count (drain s) = length (record_lines (printed (drain s)))"
proof -
  let ?B = "buffer s"
  let ?R = "filter keep (filter (\<lambda>v. True) ?B)"
  let ?E = "records (printed s)"
  from assms have ic: "\<forall>v\<in>set ?B. record_of (line v) = Some (key v)"
    and id: "\<forall>x\<in>set (printed s). startswith_hash x \<or> is_record x"
    and ib: "\<forall>v\<in>set (butlast ?B). \<not> keep v"
    and ih: "far_apart th ?E"
    and il: "?B \<noteq> [] \<and> keep (last ?B) \<longrightarrow>
         (\<forall>e\<in>set ?E. fst e = chrom (last ?B) \<longrightarrow> th (fst e) < pos (last ?B) - snd e)"
    and "if": "kept_count s = length (record_lines (printed s))"
    by (simp_all add: grouped_inv_def)
  have R: "?R = (if ?B \<noteq> [] \<and> keep (last ?B) \<and> True then [last ?B] else [])"
    using ib by (rule keep_only_last)
  have pr: "printed (drain s) = printed s @ map line ?R"
    by (simp add: drain_def fold_release_printed)
  have kc: "kept_count (drain s) = kept_count s + length ?R"
    by (simp add: drain_def fold_release_kept)
  have Rc: "\<forall>v\<in>set ?R. record_of (line v) = Some (key v)"
    using ic by auto
  have recR: "records (map line ?R) = map key ?R"
    using Rc by (rule records_of_entries)
  have rlR: "record_lines (map line ?R) = map line ?R"
    using Rc by (rule record_lines_of_entries)
  have E': "records (printed (drain s)) = ?E @ map key ?R"
    by (simp only: pr records_append recR)
  show "far_apart th (records (printed (drain s)))"
  proof (cases "?R = []")
    case True
    then show ?thesis using ih by (simp add: E')
  next
    case False
    then have R1: "?R = [last ?B]" and ne: "?B \<noteq> []" and k: "keep (last ?B)"
      using R by (auto split: if_splits)
    from il ne k have "\<forall>e\<in>set ?E. fst e = chrom (last ?B) \<longrightarrow>
        th (chrom (last ?B)) < pos (last ?B) - snd e"
      by auto
    then have "far_apart th (?E @ [key (last ?B)])"
      using ih by (simp add: far_apart_snoc key_def)
    then show ?thesis
      unfolding E' R1 by simp
  qed
  show "\<forall>l\<in>set (printed (drain s)). startswith_hash l \<or> is_record l"
    using id Rc by (auto simp: pr is_record_def)
  show "kept_count (drain s) = length (record_lines (printed (drain s)))"
  proof -
    have "length (record_lines (printed (drain s))) =
        length (record_lines (printed s)) + length ?R"
      unfolding pr record_lines_append rlR by simp
    then show ?thesis unfolding kc "if" by simp
  qed
qed

lemma run_total:
  "\<forall>l\<in>set ls. \<not> too_short l \<Longrightarrow> \<exists>s'. run_lines sdr ts to s ls = Inr s'"
proof (induction ls arbitrary: s)
  case Nil
  then show ?case by simp
next
  case (Cons l ls)
  have "\<exists>s1. process_line sdr ts to s l = Inr s1"
  proof (cases "startswith_hash l")
    case True
    then show ?thesis by (simp add: process_line_header)
  next
    case nh: False
    show ?thesis
    proof (cases "record_of l")
      case None
      with nh Cons.prems show ?thesis by (simp add: process_line_skip)
    next
      case (Some r)
      then show ?thesis by (cases r) (simp add: process_line_record)
    qed
  qed
  then obtain s1 where s1: "process_line sdr ts to s l = Inr s1" by blast
  from Cons.IH [of s1] Cons.prems obtain s' where "run_lines sdr ts to s1 ls = Inr s'"
    by auto
  with s1 show ?case by simp
qed

lemma record_not_short: "startswith_hash l \<or> is_record l \<Longrightarrow> \<not> too_short l"
  using read_fields_cases [of "split_tab l"]
  by (auto simp: too_short_def is_record_def record_of_def split: if_splits sum.splits)

lemma run_headers:
  "\<forall>l\<in>set hs. startswith_hash l \<Longrightarrow>
     run_lines sdr ts to s hs = Inr (s\<lparr>printed := printed s @ hs\<rparr>)"
  by (induction hs arbitrary: s) (simp_all add: process_line_header)

lemma run_data_only:
  assumes "\<forall>l\<in>set ds. is_data l"
    and "run_lines sdr ts to s ds = Inr s'"
    and "\<forall>v\<in>set (buffer s). is_data (line v)"
  shows "(\<exists>xs. printed s' = printed s @ xs \<and> (\<forall>x\<in>set xs. is_data x)) \<and>
         (\<forall>v\<in>set (buffer s'). is_data (line v))"
  using assms
proof (induction ds arbitrary: s)
  case Nil
  then show ?case by simp
next
  case (Cons l ds)
  from Cons.prems(2) obtain s1 where step: "process_line sdr ts to s l = Inr s1"
    and rest: "run_lines sdr ts to s1 ds = Inr s'"
    by (auto split: sum.splits)
  have dl: "is_data l" and dds: "\<forall>l\<in>set ds. is_data l"
    using Cons.prems(1) by auto
  have one: "(\<exists>xs. printed s1 = printed s @ xs \<and> (\<forall>x\<in>set xs. is_data x)) \<and>
             (\<forall>v\<in>set (buffer s1). is_data (line v))"
    using step
  proof (cases rule: process_line_Inr_cases)
    case header
    with dl show ?thesis by (simp add: is_data_def)
  next
    case skip
    with Cons.prems(3) show ?thesis by simp
  next
    case (data c p)
    let ?rel = "filter keep (filter (\<lambda>v. \<not> in_conflict c p (threshold_of sdr ts to c) v) (buffer s))"
    have "printed s1 = printed s @ map line ?rel"
      by (simp add: data(3) fold_release_printed)
    moreover have "\<forall>x\<in>set (map line ?rel). is_data x"
      using Cons.prems(3) by auto
    moreover have "\<forall>v\<in>set (buffer s1). is_data (line v)"
      using Cons.prems(3) dl by (auto simp: data(3))
    ultimately show ?thesis by blast
  qed
  then obtain xs where xs: "printed s1 = printed s @ xs" "\<forall>x\<in>set xs. is_data x"
    and b1: "\<forall>v\<in>set (buffer s1). is_data (line v)"
    by blast
  from Cons.IH [OF dds rest b1] obtain ys where ys: "printed s' = printed s1 @ ys"
    "\<forall>x\<in>set ys. is_data x" and b': "\<forall>v\<in>set (buffer s'). is_data (line v)"
    by blast
  have "printed s' = printed s @ (xs @ ys)" using xs(1) ys(1) by simp
  moreover have "\<forall>x\<in>set (xs @ ys). is_data x" using xs(2) ys(2) by auto
  ultimately show ?case using b' by blast
qed

lemma headers_first_pass:
  assumes hf: "headers_first ls"
    and pass: "filter_pass sdr ts to ls = Inr (out, k, r)"
  shows "headers_first out"
proof -
  let ?hs = "takeWhile startswith_hash ls" and ?ds = "dropWhile startswith_hash ls"
  from pass obtain s where run: "run_lines sdr ts to init_state ls = Inr s"
    and out: "out = printed (drain s)"
    by (auto simp: filter_pass_def Let_def split: sum.splits)
  have H: "\<forall>l\<in>set ?hs. startswith_hash l"
    by (auto dest: set_takeWhileD)
  have D: "\<forall>l\<in>set ?ds. is_data l"
    using hf by (simp add: headers_first_def list_all_iff)
  let ?s0 = "init_state\<lparr>printed := printed init_state @ ?hs\<rparr>"
  have "run_lines sdr ts to init_state (?hs @ ?ds) = Inr s"
    using run by simp
  then have run2: "run_lines sdr ts to ?s0 ?ds = Inr s"
    unfolding run_lines_append run_headers [OF H] by simp
  have "\<forall>v\<in>set (buffer ?s0). is_data (line v)"
    by (simp add: init_state_def)
  from run_data_only [OF D run2 this] obtain xs where xs: "printed s = printed ?s0 @ xs"
    "\<forall>x\<in>set xs. is_data x" and b: "\<forall>v\<in>set (buffer s). is_data (line v)"
    by blast
  let ?ys = "xs @ map line (filter keep (buffer s))"
  have o: "out = ?hs @ ?ys"
    using out xs(1) by (simp add: drain_def fold_release_printed init_state_def)
  have Y: "\<forall>l\<in>set ?ys. is_data l"
    using xs(2) b by auto
  from headers_then_data [OF H Y] have "?hs @ ?ys =
      filter startswith_hash (?hs @ ?ys) @ filter is_data (?hs @ ?ys)"
    by simp
  then show ?thesis
    unfolding o headers_first_iff .
qed

lemma record_lines_data:
  "\<forall>l\<in>set ls. startswith_hash l \<or> is_record l \<Longrightarrow> record_lines ls = filter is_data ls"
  unfolding record_lines_def
  by (rule filter_cong) (auto simp: is_data_def dest: is_record_data)

subsection \<open>Running the pass on its own output\<close>

text \<open>
  Claim C2, amended.  Let every header line of the input come before its data lines, let
  no data line have fewer than two fields, let the records of each chromosome be
  consecutive and their positions never decrease.  Then the pass completes, and a second
  pass over its output, with the same thresholds, prints exactly that output again,
  reports the same kept count and removes nothing.
\<close>

theorem idempotent_on_grouped_input:
  assumes "list_all (\<lambda>l. \<not> too_short l) ls"
    and "headers_first ls"
    and "nondecreasing_per_chrom (records ls)"
    and "chrom_contiguous (map fst (records ls))"
  shows "\<exists>out k r. filter_pass sdr ts to ls = Inr (out, k, r) \<and>
           filter_pass sdr ts to out = Inr (out, k, 0)"
proof -
  let ?th = "threshold_of sdr ts to"
  have "\<forall>l\<in>set ls. \<not> too_short l"
    using assms(1) by (simp add: list_all_iff)
  from run_total [OF this] obtain s where run: "run_lines sdr ts to init_state ls = Inr s"
    by blast
  let ?out = "printed (drain s)" and ?k = "kept_count (drain s)" and ?r = "removed_count (drain s)"
  have pass1: "filter_pass sdr ts to ls = Inr (?out, ?k, ?r)"
    using run by (simp add: filter_pass_def Let_def)
  have inv: "grouped_inv ?th ls s"
    using run assms(3,4) by (rule run_grouped_inv)
  note fin = grouped_inv_drain [OF inv]
  have short: "\<forall>l\<in>set ?out. \<not> too_short l"
    using fin(2) record_not_short by blast
  from far_apart_pass [OF short fin(1)] obtain out2
    where pass2: "filter_pass sdr ts to ?out = Inr (out2, length (record_lines ?out), 0)"
      and d2: "filter is_data out2 = record_lines ?out"
      and h2: "filter startswith_hash out2 = filter startswith_hash ?out"
    by blast
  have hf1: "headers_first ?out"
    using assms(2) pass1 by (rule headers_first_pass)
  have hf2: "headers_first out2"
    using hf1 pass2 by (rule headers_first_pass)
  have e1: "?out = filter startswith_hash ?out @ filter is_data ?out"
    using hf1 by (simp only: headers_first_iff)
  have "out2 = filter startswith_hash out2 @ filter is_data out2"
    using hf2 by (simp only: headers_first_iff)
  also have "\<dots> = filter startswith_hash ?out @ filter is_data ?out"
    using d2 h2 record_lines_data [OF fin(2)] by simp
  also have "\<dots> = ?out"
    using e1 by (rule sym)
  finally have "out2 = ?out" .
  with pass2 fin(3) have "filter_pass sdr ts to ?out = Inr (?out, ?k, 0)"
    by simp
  with pass1 show ?thesis by blast
qed

theorem idempotent_on_grouped_input_witness:
  "list_all (\<lambda>l. \<not> too_short l)
     [header_line, vcf_line ''chr1'' ''10'', vcf_line ''chr1'' ''15'', vcf_line ''chr1'' ''100'',
      vcf_line ''chr2'' ''5''] \<and>
   headers_first
     [header_line, vcf_line ''chr1'' ''10'', vcf_line ''chr1'' ''15'', vcf_line ''chr1'' ''100'',
      vcf_line ''chr2'' ''5''] \<and>
   nondecreasing_per_chrom (records
     [header_line, vcf_line ''chr1'' ''10'', vcf_line ''chr1'' ''15'', vcf_line ''chr1'' ''100'',
      vcf_line ''chr2'' ''5'']) \<and>
   chrom_contiguous (map fst (records
     [header_line, vcf_line ''chr1'' ''10'', vcf_line ''chr1'' ''15'', vcf_line ''chr1'' ''100'',
      vcf_line ''chr2'' ''5''])) \<and>
   filter_pass ''Chr1_RagTag'' 20 20
     [header_line, vcf_line ''chr1'' ''10'', vcf_line ''chr1'' ''15'', vcf_line ''chr1'' ''100'',
      vcf_line ''chr2'' ''5''] =
     Inr ([header_line, vcf_line ''chr1'' ''100'', vcf_line ''chr2'' ''5''], 2, 2) \<and>
   filter_pass ''Chr1_RagTag'' 20 20
     [header_line, vcf_line ''chr1'' ''100'', vcf_line ''chr2'' ''5''] =
     Inr ([header_line, vcf_line ''chr1'' ''100'', vcf_line ''chr2'' ''5''], 2, 0)"
proof -
  let ?ls = "[header_line, vcf_line ''chr1'' ''10'', vcf_line ''chr1'' ''15'',
              vcf_line ''chr1'' ''100'', vcf_line ''chr2'' ''5'']"
  let ?out = "[header_line, vcf_line ''chr1'' ''100'', vcf_line ''chr2'' ''5'']"
  have a: "list_all (\<lambda>l. \<not> too_short l) ?ls" by code_simp
  have b: "headers_first ?ls" by code_simp
  have c: "nondecreasing_per_chrom (records ?ls)" by code_simp
  have d: "chrom_contiguous (map fst (records ?ls))" by code_simp
  have e: "filter_pass ''Chr1_RagTag'' 20 20 ?ls = Inr (?out, 2, 2)" by code_simp
  from idempotent_on_grouped_input [OF a b c d, of "''Chr1_RagTag''" 20 20] a b c d e
  show ?thesis by auto
qed

text \<open>
  Without the two added conditions the second pass can differ.  When the records of
  another chromosome, all removed, separate two records of one chromosome that are
  within the threshold, both are kept by the first pass and removed by the second.
  And a header line after the data lines is printed before the record still in the
  buffer, so that the second pass prints the lines in another order.
\<close>

theorem idempotence_counterexample:
  "nondecreasing_per_chrom (records
     [vcf_line ''chr1'' ''10'', vcf_line ''chr2'' ''5'', vcf_line ''chr2'' ''6'',
      vcf_line ''chr1'' ''15'']) \<and>
   filter_pass ''Chr1_RagTag'' 10 10
     [vcf_line ''chr1'' ''10'', vcf_line ''chr2'' ''5'', vcf_line ''chr2'' ''6'',
      vcf_line ''chr1'' ''15''] =
     Inr ([vcf_line ''chr1'' ''10'', vcf_line ''chr1'' ''15''], 2, 2) \<and>
   filter_pass ''Chr1_RagTag'' 10 10 [vcf_line ''chr1'' ''10'', vcf_line ''chr1'' ''15''] =
     Inr ([], 0, 2) \<and>
   nondecreasing_per_chrom (records
     [vcf_line ''chr1'' ''10'', vcf_line ''chr1'' ''100'', header_line]) \<and>
   filter_pass ''Chr1_RagTag'' 10 10
     [vcf_line ''chr1'' ''10'', vcf_line ''chr1'' ''100'', header_line] =
     Inr ([vcf_line ''chr1'' ''10'', header_line, vcf_line ''chr1'' ''100''], 2, 0) \<and>
   filter_pass ''Chr1_RagTag'' 10 10
     [vcf_line ''chr1'' ''10'', header_line, vcf_line ''chr1'' ''100''] =
     Inr ([header_line, vcf_line ''chr1'' ''10'', vcf_line ''chr1'' ''100''], 2, 0)"
  by code_simp

section \<open>Lines the pass cannot read\<close>

subsection \<open>Malformed data lines\<close>

lemma non_integer_position_skipped:
  assumes "\<not> startswith_hash l" and "2 \<le> length (split_tab l)" and "record_of l = None"
  shows "process_line sdr ts to s l = Inr s"
  using assms by (simp add: process_line_skip too_short_def)

lemma short_line_not_caught:
  assumes "\<not> startswith_hash l" and "length (split_tab l) < 2"
  shows "run_lines sdr ts to s (l # ls) = Inl IndexError"
  using assms by (simp add: process_line_abort too_short_def)

lemma short_line_counted_pass:
  assumes "\<not> startswith_hash l" and "length (split_tab l) < 2"
  shows "stats_line sdr st l = st"
  using assms by (simp add: stats_line_def)

text \<open>
  Claim C1.  A malformed data line is to be skipped, alone, and never to end the run.
  A data line whose position is no integer is skipped (\<open>non_integer_position_skipped\<close>),
  but a data line with fewer than two fields, such as an empty line between two records,
  raises \<^verbatim>\<open>IndexError\<close> in the filtering pass, which catches \<^verbatim>\<open>ValueError\<close>
  only: the run ends there and reports no counts.  The counting pass of the same script
  tests the number of fields first and skips the line.
\<close>

theorem short_line_aborts:
  "too_short [CHR 0x0A] \<and>
   filter_pass ''Chr1_RagTag'' 10 10
     [vcf_line ''chr1'' ''10'', [CHR 0x0A], vcf_line ''chr1'' ''100''] = Inl IndexError \<and>
   count_variants ''Chr1_RagTag''
     [vcf_line ''chr1'' ''10'', [CHR 0x0A], vcf_line ''chr1'' ''100''] =
     \<lparr>count_sdr = 0, count_other = 2, max_pos_sdr = 0, max_pos_other = 100\<rparr>"
  by code_simp

section \<open>The table of chromosome lengths\<close>

text \<open>
  One step of the merge keeps every entry the table has, so the lookup in the merged
  table is the lookup in the first table where that is defined and the lookup in the
  second elsewhere.
\<close>

lemma map_of_fill_gaps:
  "map_of (fold fill_gap vs chrom_lens) c =
     (case map_of chrom_lens c of Some n \<Rightarrow> Some n | None \<Rightarrow> map_of vs c)"
proof (induction vs arbitrary: chrom_lens)
  case Nil
  show ?case by (simp split: option.split)
next
  case (Cons e vs)
  obtain k v where e: "e = (k, v)" by (cases e)
  show ?case
    unfolding fold_Cons comp_apply Cons.IH
    by (auto simp: e fill_gap_def update_conv' split: option.splits)
qed

subsection \<open>Priority of the index file\<close>

text \<open>
  Claim C8.  Whenever the index file gives a table (no path, or a file that can be read),
  the combined table is returned, and for every chromosome name it holds the length of the
  index file if the index file defines one, otherwise the contig length of the VCF header
  if the header defines one, and otherwise no entry.
\<close>

theorem merge_priority:
  assumes "get_chrom_lengths_from_fai fai = Inr fai_lens"
  shows "\<exists>chrom_lens. get_combined_chrom_lengths fai vcf = Inr chrom_lens \<and>
           (\<forall>c. map_of chrom_lens c =
             (case map_of fai_lens c of
                Some n \<Rightarrow> Some n
              | None \<Rightarrow> map_of (get_chrom_lengths_from_vcf vcf) c))"
  using assms by (simp add: get_combined_chrom_lengths_def map_of_fill_gaps)

text \<open>
  An index file that defines \<open>chr1\<close> and has an unreadable length for \<open>chr2\<close>, with a
  header that defines \<open>chr1\<close> and \<open>chr2\<close>, and \<open>chr3\<close> only after the first data line.
\<close>

theorem merge_priority_witness:
  "get_chrom_lengths_from_fai (Lines [fai_line ''chr1'' ''100'', fai_line ''chr2'' ''x'']) =
     Inr [(''chr1'', 100)] \<and>
   (\<exists>chrom_lens.
      get_combined_chrom_lengths (Lines [fai_line ''chr1'' ''100'', fai_line ''chr2'' ''x''])
        [header_line, contig_line ''chr1'' ''7'', contig_line ''chr2'' ''200'',
         vcf_line ''chr1'' ''5'', contig_line ''chr3'' ''9''] = Inr chrom_lens \<and>
      map_of chrom_lens ''chr1'' = Some 100 \<and>
      map_of chrom_lens ''chr2'' = Some 200 \<and>
      map_of chrom_lens ''chr3'' = None)"
proof -
  let ?F = "Lines [fai_line ''chr1'' ''100'', fai_line ''chr2'' ''x'']"
  let ?V = "[header_line, contig_line ''chr1'' ''7'', contig_line ''chr2'' ''200'',
             vcf_line ''chr1'' ''5'', contig_line ''chr3'' ''9'']"
  have f: "get_chrom_lengths_from_fai ?F = Inr [(''chr1'', 100)]"
    by code_simp
  have v: "get_chrom_lengths_from_vcf ?V = [(''chr1'', 7), (''chr2'', 200)]"
    by code_simp
  from merge_priority [OF f, of ?V] obtain t
    where t: "get_combined_chrom_lengths ?F ?V = Inr t"
      and m: "\<And>c. map_of t c =
               (case map_of [(''chr1'', 100)] c of
                  Some n \<Rightarrow> Some n
                | None \<Rightarrow> map_of (get_chrom_lengths_from_vcf ?V) c)"
    by blast
  have "map_of t ''chr1'' = Some 100" "map_of t ''chr2'' = Some 200" "map_of t ''chr3'' = None"
    unfolding m v by simp_all
  with f t show ?thesis by blast
qed

section \<open>Rounding to the nearest float\<close>

subsection \<open>Rounding to an integer\<close>

lemma rhe_lower: "\<lfloor>x\<rfloor> \<le> round_half_even x"
  by (simp add: round_half_even_def Let_def)

lemma rhe_upper: "round_half_even x \<le> \<lceil>x\<rceil>"
proof (cases "x = of_int \<lfloor>x\<rfloor>")
  case True
  then have "x - of_int \<lfloor>x\<rfloor> = 0" by simp
  then have "round_half_even x = \<lfloor>x\<rfloor>"
    by (simp add: round_half_even_def Let_def)
  then show ?thesis by (simp add: floor_le_ceiling)
next
  case False
  then have "\<lceil>x\<rceil> = \<lfloor>x\<rfloor> + 1"
    by (metis ceiling_altdef)
  then show ?thesis by (simp add: round_half_even_def Let_def)
qed

lemma rhe_of_int: "round_half_even (of_int k) = k"
  by (simp add: round_half_even_def Let_def)

lemma rhe_mono:
  assumes "x \<le> y"
  shows "round_half_even x \<le> round_half_even y"
proof (cases "\<lfloor>x\<rfloor> = \<lfloor>y\<rfloor>")
  case True
  with assms show ?thesis
    by (auto simp: round_half_even_def Let_def)
next
  case False
  with assms have "\<lfloor>x\<rfloor> < \<lfloor>y\<rfloor>"
    by (simp add: floor_mono order.strict_iff_order)
  then have "\<lfloor>x\<rfloor> + 1 \<le> \<lfloor>y\<rfloor>" by simp
  moreover have "round_half_even x \<le> \<lfloor>x\<rfloor> + 1"
    by (simp add: round_half_even_def Let_def)
  ultimately show ?thesis using rhe_lower [of y] by linarith
qed

lemma rhe_ge: "of_int k \<le> x \<Longrightarrow> k \<le> round_half_even x"
  using rhe_mono [of "of_int k" x] by (simp add: rhe_of_int)

lemma rhe_le: "x \<le> of_int k \<Longrightarrow> round_half_even x \<le> k"
  using rhe_mono [of x "of_int k"] by (simp add: rhe_of_int)

lemma rhe_minus: "round_half_even (- x) = - round_half_even x"
proof (cases "x = of_int \<lfloor>x\<rfloor>")
  case True
  then obtain k where "x = of_int k" ..
  then have "round_half_even (- x) = round_half_even (of_int (- k))" by simp
  also have "\<dots> = - k" by (rule rhe_of_int)
  finally show ?thesis using \<open>x = of_int k\<close> by (simp add: rhe_of_int)
next
  case False
  then have c: "\<lceil>x\<rceil> = \<lfloor>x\<rfloor> + 1"
    by (metis ceiling_altdef)
  have f: "\<lfloor>- x\<rfloor> = - \<lfloor>x\<rfloor> - 1"
    using c by (simp add: ceiling_def)
  show ?thesis
    unfolding round_half_even_def Let_def f
    by (auto simp: algebra_simps)
qed

subsection \<open>Exponent and quantum\<close>

lemma powi_powr: "(2::real) powr real_of_int k = 2 powi k"
  by (rule powr_real_of_int') simp_all

lemma floor_log_le_iff:
  assumes "0 < x"
  shows "k \<le> \<lfloor>log 2 x\<rfloor> \<longleftrightarrow> 2 powi k \<le> x"
  using assms by (simp add: le_floor_iff le_log_iff powi_powr)

lemma floor_log_less_iff:
  assumes "0 < x"
  shows "\<lfloor>log 2 x\<rfloor> < k \<longleftrightarrow> x < 2 powi k"
  using assms by (simp add: floor_less_iff log_less_iff powi_powr)

lemma powi_mono: "i \<le> j \<Longrightarrow> (2::real) powi i \<le> 2 powi j"
  by (rule power_int_increasing) simp_all

lemma powi_pos: "0 < (2::real) powi i"
  by simp

lemma powi_add: "(2::real) powi (i + j) = 2 powi i * 2 powi j"
  by (rule power_int_add) simp

lemma exponent_ge: "- 1022 \<le> exponent x"
  by (simp add: exponent_def)

lemma exponent_mono:
  assumes "0 < x" and "x \<le> y"
  shows "exponent x \<le> exponent y"
proof -
  have "log 2 x \<le> log 2 y" using assms by simp
  then have "\<lfloor>log 2 x\<rfloor> \<le> \<lfloor>log 2 y\<rfloor>" by (rule floor_mono)
  then show ?thesis using assms by (simp add: exponent_def)
qed

lemma exponent_upper:
  assumes "0 < x"
  shows "x < 2 powi (exponent x + 1)"
proof -
  have "\<lfloor>log 2 x\<rfloor> < \<lfloor>log 2 x\<rfloor> + 1" by simp
  then have "x < 2 powi (\<lfloor>log 2 x\<rfloor> + 1)"
    using assms by (simp only: floor_log_less_iff)
  also have "\<dots> \<le> 2 powi (exponent x + 1)"
    using assms by (intro powi_mono) (simp add: exponent_def)
  finally show ?thesis .
qed

lemma exponent_normal:
  assumes "2 powi (- 1022) \<le> x"
  shows "exponent x = \<lfloor>log 2 x\<rfloor>"
proof -
  have x: "0 < x" using assms powi_pos [of "- 1022"] by linarith
  then have "- 1022 \<le> \<lfloor>log 2 x\<rfloor>"
    using assms by (simp only: floor_log_le_iff)
  then show ?thesis using x by (simp add: exponent_def)
qed

lemma exponent_lower:
  assumes "2 powi (- 1022) \<le> x"
  shows "2 powi (exponent x) \<le> x"
proof -
  have x: "0 < x" using assms powi_pos [of "- 1022"] by linarith
  have "\<lfloor>log 2 x\<rfloor> \<le> \<lfloor>log 2 x\<rfloor>" by simp
  then have "2 powi \<lfloor>log 2 x\<rfloor> \<le> x"
    using x by (simp only: floor_log_le_iff)
  then show ?thesis by (simp only: exponent_normal [OF assms])
qed

lemma exponent_eqI:
  assumes "2 powi e \<le> \<bar>x\<bar>" and "\<bar>x\<bar> < 2 powi (e + 1)" and "- 1022 \<le> e"
  shows "exponent x = e"
proof -
  have x: "0 < \<bar>x\<bar>" using assms(1) powi_pos [of e] by linarith
  have "e \<le> \<lfloor>log 2 \<bar>x\<bar>\<rfloor>" using x assms(1) by (simp only: floor_log_le_iff)
  moreover have "\<lfloor>log 2 \<bar>x\<bar>\<rfloor> < e + 1" using x assms(2) by (simp only: floor_log_less_iff)
  ultimately show ?thesis using assms(3) by (simp add: exponent_def)
qed

lemma exponent_subnormal:
  assumes "0 < x" and "x < 2 powi (- 1022)"
  shows "exponent x = - 1022"
proof -
  have "\<lfloor>log 2 x\<rfloor> < - 1022" using assms by (simp only: floor_log_less_iff)
  then show ?thesis using assms(1) by (simp add: exponent_def)
qed

lemma exponent_minus: "exponent (- x) = exponent x"
  by (simp add: exponent_def)

lemma quantum_pos: "0 < quantum x"
  by (simp add: quantum_def)

lemma quantum_minus: "quantum (- x) = quantum x"
  by (simp add: quantum_def exponent_minus)

lemma quantum_times: "quantum x * 2 ^ 53 = 2 powi (exponent x + 1)"
proof -
  have "(2::real) powi (exponent x - 52) * 2 powi 53 = 2 powi (exponent x - 52 + 53)"
    by (rule powi_add [symmetric])
  then show ?thesis by (simp add: quantum_def add.commute)
qed

lemma quantum_times52: "quantum x * 2 ^ 52 = 2 powi (exponent x)"
proof -
  have "(2::real) powi (exponent x - 52) * 2 powi 52 = 2 powi (exponent x - 52 + 52)"
    by (rule powi_add [symmetric])
  then show ?thesis by (simp add: quantum_def)
qed

lemma nearest_minus: "nearest (- x) = - nearest x"
  by (simp add: nearest_def quantum_minus rhe_minus)

lemma nearest_nonneg:
  assumes "0 \<le> x"
  shows "0 \<le> nearest x"
proof (cases "x = 0")
  case True
  then show ?thesis by (simp add: nearest_def)
next
  case False
  have "of_int 0 \<le> x / quantum x"
    using assms quantum_pos [of x] by simp
  then have "0 \<le> round_half_even (x / quantum x)" by (rule rhe_ge)
  then show ?thesis
    using False quantum_pos [of x] by (simp add: nearest_def)
qed

lemma nearest_le_top:
  assumes "0 < x"
  shows "nearest x \<le> 2 powi (exponent x + 1)"
proof -
  have "x < quantum x * 2 ^ 53"
    using exponent_upper [OF assms] by (simp only: quantum_times)
  then have "x / quantum x \<le> 2 ^ 53"
    using quantum_pos [of x] by (simp add: field_simps)
  then have "x / quantum x \<le> of_int (2 ^ 53)" by simp
  then have "round_half_even (x / quantum x) \<le> 2 ^ 53" by (rule rhe_le)
  then have "real_of_int (round_half_even (x / quantum x)) \<le> of_int (2 ^ 53)"
    by (simp only: of_int_le_iff)
  then have "quantum x * real_of_int (round_half_even (x / quantum x)) \<le> quantum x * 2 ^ 53"
    using quantum_pos [of x] by simp
  then have "quantum x * real_of_int (round_half_even (x / quantum x)) \<le> 2 powi (exponent x + 1)"
    by (simp only: quantum_times)
  then show ?thesis
    using assms by (simp add: nearest_def)
qed

lemma nearest_ge_bot:
  assumes "2 powi (- 1022) \<le> x"
  shows "2 powi (exponent x) \<le> nearest x"
proof -
  have x: "0 < x" using assms powi_pos [of "- 1022"] by linarith
  have "quantum x * 2 ^ 52 \<le> x"
    using exponent_lower [OF assms] by (simp only: quantum_times52)
  then have "2 ^ 52 \<le> x / quantum x"
    using quantum_pos [of x] by (simp add: field_simps)
  then have "of_int (2 ^ 52) \<le> x / quantum x" by simp
  then have "2 ^ 52 \<le> round_half_even (x / quantum x)" by (rule rhe_ge)
  then have "of_int (2 ^ 52) \<le> real_of_int (round_half_even (x / quantum x))"
    by (simp only: of_int_le_iff)
  then have "quantum x * 2 ^ 52 \<le> quantum x * real_of_int (round_half_even (x / quantum x))"
    using quantum_pos [of x] by simp
  then have "2 powi (exponent x) \<le> quantum x * real_of_int (round_half_even (x / quantum x))"
    by (simp only: quantum_times52)
  then show ?thesis
    using x by (simp add: nearest_def)
qed

lemma nearest_mono_pos:
  assumes "0 < x" and "x \<le> y"
  shows "nearest x \<le> nearest y"
proof (cases "exponent x = exponent y")
  case True
  then have q: "quantum y = quantum x" by (simp add: quantum_def)
  have "x / quantum x \<le> y / quantum x"
    using assms(2) quantum_pos [of x] by (simp add: divide_right_mono)
  then have "round_half_even (x / quantum x) \<le> round_half_even (y / quantum x)"
    by (rule rhe_mono)
  then have "quantum x * real_of_int (round_half_even (x / quantum x))
      \<le> quantum x * real_of_int (round_half_even (y / quantum x))"
    using quantum_pos [of x] by simp
  then show ?thesis using assms by (simp add: nearest_def q)
next
  case False
  with exponent_mono [OF assms] have lt: "exponent x + 1 \<le> exponent y" by simp
  have "- 1022 < exponent y" using lt exponent_ge [of x] by linarith
  then have ny: "2 powi (- 1022) \<le> y"
    using exponent_subnormal [of y] assms by (cases "y < 2 powi (- 1022)") auto
  have "nearest x \<le> 2 powi (exponent x + 1)" by (rule nearest_le_top [OF assms(1)])
  also have "\<dots> \<le> 2 powi (exponent y)" using lt by (rule powi_mono)
  also have "\<dots> \<le> nearest y" by (rule nearest_ge_bot [OF ny])
  finally show ?thesis .
qed

lemma nearest_mono_nonneg:
  assumes "0 \<le> x" and "x \<le> y"
  shows "nearest x \<le> nearest y"
proof (cases "x = 0")
  case True
  then show ?thesis using assms nearest_nonneg [of y] by (simp add: nearest_def)
next
  case False
  with assms show ?thesis by (intro nearest_mono_pos) simp_all
qed

lemma nearest_mono:
  assumes "x \<le> y"
  shows "nearest x \<le> nearest y"
proof (cases "0 \<le> x")
  case True
  then show ?thesis using assms by (rule nearest_mono_nonneg)
next
  case x: False
  show ?thesis
  proof (cases "0 \<le> y")
    case True
    have "0 \<le> nearest (- x)" using x by (intro nearest_nonneg) simp
    then have "nearest x \<le> 0" by (simp add: nearest_minus)
    also have "0 \<le> nearest y" using True by (rule nearest_nonneg)
    finally show ?thesis .
  next
    case False
    then have "nearest (- y) \<le> nearest (- x)"
      using assms by (intro nearest_mono_nonneg) simp_all
    then show ?thesis by (simp add: nearest_minus)
  qed
qed

lemma nearest_eval:
  assumes "2 powi e \<le> \<bar>x\<bar>" and "\<bar>x\<bar> < 2 powi (e + 1)" and "- 1022 \<le> e"
  shows "nearest x = 2 powi (e - 52) * of_int (round_half_even (x / 2 powi (e - 52)))"
proof -
  have "0 < \<bar>x\<bar>" using assms(1) powi_pos [of e] by linarith
  then have "x \<noteq> 0" by simp
  then show ?thesis
    by (simp add: nearest_def quantum_def exponent_eqI [OF assms])
qed

lemma nearest_pow2:
  assumes "- 1022 \<le> k"
  shows "nearest (2 powi k) = 2 powi k"
proof -
  have lt: "(2::real) powi k < 2 powi (k + 1)"
    by (rule power_int_strict_increasing) simp_all
  have ab: "\<bar>(2::real) powi k\<bar> = 2 powi k"
    by (rule abs_of_pos) (rule powi_pos)
  have "nearest (2 powi k) = 2 powi (k - 52) * of_int (round_half_even (2 powi k / 2 powi (k - 52)))"
    by (rule nearest_eval) (simp_all only: ab lt assms order_refl)
  also have "(2::real) powi k / 2 powi (k - 52) = of_int (2 ^ 52)"
    by (simp add: power_int_diff)
  also have "round_half_even (of_int (2 ^ 52)) = 2 ^ 52" by (rule rhe_of_int)
  also have "2 powi (k - 52) * of_int (2 ^ 52) = (2::real) powi k"
    by (simp add: power_int_diff)
  finally show ?thesis .
qed

subsection \<open>Representable numbers\<close>

lemma rhe_eqI:
  assumes "of_int n \<le> x" and "x < of_int n + 1 / 2"
  shows "round_half_even x = n"
proof -
  have "\<lfloor>x\<rfloor> = n" using assms by (intro floor_unique) simp_all
  then show ?thesis using assms by (simp add: round_half_even_def Let_def)
qed

lemma rhe_eqI_up:
  assumes "of_int n - 1 / 2 < x" and "x \<le> of_int n"
  shows "round_half_even x = n"
proof -
  have "round_half_even (- x) = - n"
    by (rule rhe_eqI) (use assms in simp_all)
  then show ?thesis by (simp add: rhe_minus)
qed

lemma to_float_finite:
  assumes "\<bar>nearest x\<bar> < 2 ^ 1024"
  shows "to_float x = Finite (nearest x)"
  using assms by (simp add: to_float_def Let_def abs_less_iff not_le)

lemma representable_nearest:
  assumes "representable x"
  shows "nearest x = x"
  using assms by (simp add: representable_def to_float_def Let_def split: if_splits)

lemma nearest_zero: "nearest 0 = 0"
  by (simp add: nearest_def)

lemma nearest_one: "nearest 1 = 1"
  using nearest_pow2 [of 0] by simp

lemma nearest_le_pow2:
  assumes "x \<le> 2 powi k" and "- 1022 \<le> k"
  shows "nearest x \<le> 2 powi k"
  using nearest_mono [OF assms(1)] by (simp only: nearest_pow2 [OF assms(2)])

lemma nearest_ge_pow2:
  assumes "2 powi k \<le> x" and "- 1022 \<le> k"
  shows "2 powi k \<le> nearest x"
  using nearest_mono [OF assms(1)] by (simp only: nearest_pow2 [OF assms(2)])

lemma below_one:
  assumes "representable p" and "p < 1"
  shows "p \<le> 1 - 2 powi (- 53)"
proof (cases "p \<le> 1 / 2")
  case True
  have "(2::real) powi (- 53) \<le> 2 powi (- 1)" by (rule powi_mono) simp
  then have "(2::real) powi (- 53) \<le> 1 / 2" by simp
  with True show ?thesis by linarith
next
  case False
  then have lo: "2 powi (- 1) \<le> \<bar>p\<bar>" by simp
  have hi: "\<bar>p\<bar> < 2 powi (- 1 + 1)" using False assms(2) by simp
  define k where "k = round_half_even (p / 2 powi (- 1 - 52))"
  have "nearest p = 2 powi (- 1 - 52) * of_int k"
    unfolding k_def by (rule nearest_eval [OF lo hi]) simp
  then have p: "p = 2 powi (- 53) * of_int k"
    using representable_nearest [OF assms(1)] by simp
  have q: "(2::real) powi (- 53) * 2 ^ 53 = 1"
    by (simp add: power_int_minus)
  have "2 powi (- 53) * of_int k < 2 powi (- 53) * (2 ^ 53 :: real)"
    using assms(2) p q by simp
  then have "real_of_int k < 2 ^ 53"
    using powi_pos [of "- 53"] by (simp only: mult_less_cancel_left_pos)
  then have "real_of_int k < of_int (2 ^ 53)" by simp
  then have "k < 2 ^ 53" by (simp only: of_int_less_iff)
  then have "k \<le> 2 ^ 53 - 1" by simp
  then have "real_of_int k \<le> of_int (2 ^ 53 - 1)" by (simp only: of_int_le_iff)
  then have "real_of_int k \<le> 2 ^ 53 - 1" by simp
  then have "2 powi (- 53) * real_of_int k \<le> 2 powi (- 53) * (2 ^ 53 - 1)"
    using powi_pos [of "- 53"] by (simp only: mult_le_cancel_left_pos)
  also have "\<dots> = 1 - 2 powi (- 53)"
    using q by (simp add: algebra_simps)
  finally show ?thesis using p by simp
qed

lemma one_minus:
  assumes "representable p" and "0 < p" and "p < 1"
  shows "float_sub (Finite 1) (Finite p) = Finite (nearest (1 - p))"
    and "2 powi (- 53) \<le> nearest (1 - p)"
    and "nearest (1 - p) \<le> 1"
proof -
  have "2 powi (- 53) \<le> 1 - p" using below_one [OF assms(1,3)] by simp
  then show lo: "2 powi (- 53) \<le> nearest (1 - p)"
    by (rule nearest_ge_pow2) simp
  have "1 - p \<le> 2 powi 0" using assms(2) by simp
  then have "nearest (1 - p) \<le> 2 powi 0" by (rule nearest_le_pow2) simp
  then show hi: "nearest (1 - p) \<le> 1" by simp
  have "0 < nearest (1 - p)" using lo powi_pos [of "- 53"] by linarith
  then have "\<bar>nearest (1 - p)\<bar> < 2 ^ 1024"
    using hi by (simp add: abs_if)
  then have "to_float (1 - p) = Finite (nearest (1 - p))" by (rule to_float_finite)
  then show "float_sub (Finite 1) (Finite p) = Finite (nearest (1 - p))"
    by (simp add: float_sub_def)
qed


section \<open>The distance threshold\<close>

subsection \<open>The closed form of the threshold\<close>

text \<open>
  The float \<^verbatim>\<open>1e-9\<close> has the exponent \<open>-30\<close>.  Above it, the quotient of a number
  between \<open>0\<close> and \<open>2048\<close> does not overflow.
\<close>

lemma float_1e_9_value: "float_1e_9 = Finite epsilon"
proof -
  have lo: "2 powi (- 30) \<le> \<bar>1 / 10 ^ 9 :: real\<bar>" by simp
  have hi: "\<bar>1 / 10 ^ 9 :: real\<bar> < 2 powi (- 30 + 1)" by simp
  have "nearest (1 / 10 ^ 9) =
      2 powi (- 30 - 52) * of_int (round_half_even (1 / 10 ^ 9 / 2 powi (- 30 - 52)))"
    by (rule nearest_eval [OF lo hi]) simp
  also have "round_half_even (1 / 10 ^ 9 / 2 powi (- 30 - 52)) = 4835703278458517"
    by (rule rhe_eqI_up) simp_all
  finally have n: "nearest (1 / 10 ^ 9) = epsilon"
    by (simp add: epsilon_def)
  have "to_float (1 / 10 ^ 9) = Finite (nearest (1 / 10 ^ 9))"
    by (rule to_float_finite) (simp only: n, simp add: epsilon_def)
  then show ?thesis by (simp only: float_1e_9_def n)
qed

lemma epsilon_ge: "2 powi (- 30) \<le> epsilon"
  by (simp add: epsilon_def)

lemma quotient:
  assumes "0 \<le> a" and "a \<le> 2 ^ 11" and "epsilon < d"
  shows "float_div (Finite a) (Finite d) = Inr (Finite (nearest (a / d)))"
    and "0 \<le> nearest (a / d)"
proof -
  have d: "0 < d" using assms(3) epsilon_ge powi_pos [of "- 30"] by linarith
  have dd: "2 powi (- 30) \<le> d" using assms(3) epsilon_ge by linarith
  have nn: "0 \<le> a / d" using assms(1) d by simp
  then show n0: "0 \<le> nearest (a / d)" by (rule nearest_nonneg)
  have "a / d \<le> 2 ^ 11 / 2 powi (- 30)"
    using assms(1,2) d dd powi_pos [of "- 30"] by (intro frac_le) simp_all
  also have "\<dots> = 2 powi 41" by simp
  finally have "nearest (a / d) \<le> 2 powi 41" by (rule nearest_le_pow2) simp
  then have "nearest (a / d) \<le> 2 ^ 41" by simp
  also have "(2::real) ^ 41 < 2 ^ 1024" by simp
  finally have "\<bar>nearest (a / d)\<bar> < 2 ^ 1024" using n0 by simp
  then have "to_float (a / d) = Finite (nearest (a / d))" by (rule to_float_finite)
  then show "float_div (Finite a) (Finite d) = Inr (Finite (nearest (a / d)))"
    using d by (simp add: float_div_def)
qed

lemma threshold_closed_form:
  assumes "log_contract libm_log" and "representable p" and "0 < p" and "p < 1"
  shows "calculate_dist_threshold libm_log (Finite d) (Finite p) m =
           Inr (if d \<le> epsilon then m
                else max \<lfloor>nearest (- libm_log (nearest (1 - p)) / d)\<rfloor> m)"
proof (cases "d \<le> epsilon")
  case True
  then show ?thesis
    by (simp add: calculate_dist_threshold_def float_1e_9_value float_le_def)
next
  case False
  then have d: "epsilon < d" by simp
  let ?x = "nearest (1 - p)"
  note s = one_minus [OF assms(2-4)]
  have x: "0 < ?x" using s(2) powi_pos [of "- 53"] by linarith
  have "(2::real) powi (- 1074) \<le> 2 powi (- 53)" by (rule powi_mono) simp
  then have r: "2 powi (- 1074) \<le> ?x" using s(2) by linarith
  have u: "?x < 2 ^ 1024"
  proof -
    have "(1::real) < 2 ^ 1024" by simp
    with s(3) show ?thesis by linarith
  qed
  from assms(1) x s(3) r u
  have l: "libm_log ?x \<le> 0" and b: "\<bar>libm_log ?x\<bar> \<le> 2 ^ 11"
    unfolding log_contract_def by blast+
  have a0: "0 \<le> - libm_log ?x" using l by simp
  have a1: "- libm_log ?x \<le> 2 ^ 11" using b by linarith
  note q = quotient [OF a0 a1 d]
  have lg: "math_log libm_log (Finite ?x) = Inr (Finite (libm_log ?x))"
    using x by (simp add: math_log_def)
  show ?thesis
    using False q(2)
    by (simp add: calculate_dist_threshold_def float_1e_9_value float_le_def s(1) lg
        float_neg_def q(1) int_of_float_def py_trunc_def)
qed

lemma neg_log_nonneg:
  assumes "log_contract libm_log" and "representable p" and "0 < p" and "p < 1"
  shows "0 \<le> - libm_log (nearest (1 - p))"
proof -
  note s = one_minus [OF assms(2-4)]
  have "0 < nearest (1 - p)" using s(2) powi_pos [of "- 53"] by linarith
  with assms(1) s(3) have "libm_log (nearest (1 - p)) \<le> 0"
    unfolding log_contract_def by blast
  then show ?thesis by simp
qed

subsection \<open>Bounds of the logarithm of two\<close>

text \<open>
  A partial sum of the exponential series is a lower bound of the exponential, when the
  remainder term is not negative.  The partial sums are computed by Horner's rule, one
  step at a time.
\<close>

lemma exp_ge_taylor:
  fixes x :: real
  assumes "0 \<le> x ^ n"
  shows "exp_partial n 0 x \<le> exp x"
proof -
  from Maclaurin_exp_le [of x n] obtain t
    where "exp x = (\<Sum>m<n. x ^ m / fact m) + exp t / fact n * x ^ n" by blast
  moreover have "0 \<le> exp t / fact n * x ^ n" using assms by simp
  ultimately show ?thesis by (simp add: exp_partial_def)
qed

lemma exp_partial_0: "exp_partial 0 k x = 0"
  by (simp add: exp_partial_def)

lemma horner_term:
  fixes x :: real
  assumes "c \<noteq> 0"
  shows "x / c * (y * (c * a) / f) = x * y * a / f"
  using assms by simp

lemma exp_partial_Suc:
  "exp_partial (Suc n) k x = 1 + x / real (Suc k) * exp_partial n (Suc k) x"
proof -
  have "exp_partial (Suc n) k x = 1 + (\<Sum>j<n. x ^ Suc j * fact k / fact (k + Suc j))"
    unfolding exp_partial_def by (subst sum.lessThan_Suc_shift) simp
  also have "(\<Sum>j<n. x ^ Suc j * fact k / fact (k + Suc j)) =
      (\<Sum>j<n. x / real (Suc k) * (x ^ j * fact (Suc k) / fact (Suc k + j)))"
  proof (rule sum.cong)
    fix j
    have e: "k + Suc j = Suc k + j" by simp
    have "x / real (Suc k) * (x ^ j * fact (Suc k) / fact (Suc k + j)) =
        x / real (Suc k) * (x ^ j * (real (Suc k) * fact k) / fact (Suc k + j))"
      by (simp only: fact_Suc of_nat_mult)
    also have "\<dots> = x * x ^ j * fact k / fact (Suc k + j)"
      by (rule horner_term) simp
    finally show "x ^ Suc j * fact k / fact (k + Suc j) =
        x / real (Suc k) * (x ^ j * fact (Suc k) / fact (Suc k + j))"
      unfolding e power_Suc by (rule sym)
  qed simp
  also have "\<dots> = x / real (Suc k) * exp_partial n (Suc k) x"
    unfolding exp_partial_def by (simp only: sum_distrib_left)
  finally show ?thesis .
qed

lemma exp_partial_step:
  assumes "exp_partial n (Suc k) x = t" and "1 + x / real (Suc k) * t = t'"
  shows "exp_partial (Suc n) k x = t'"
  using assms by (simp only: exp_partial_Suc)

lemma ln2_upper: "ln (2::real) < 399572145162582993 / 576460752303423488"
proof -
  have s18: "exp_partial 0 (Suc 17) (399572145162582993 / 576460752303423488) = 0"
    by (rule exp_partial_0)
  have a17: "1 + (399572145162582993 / 576460752303423488) / real (Suc 17) * (0) = 1"
    by simp
  have s17: "exp_partial 1 (Suc 16) (399572145162582993 / 576460752303423488) = 1"
    using exp_partial_step [OF s18 a17] by simp
  have a16: "1 + (399572145162582993 / 576460752303423488) / real (Suc 16) * (1) = 10199404934320782289 / 9799832789158199296"
    by simp
  have s16: "exp_partial 2 (Suc 15) (399572145162582993 / 576460752303423488) = 10199404934320782289 / 9799832789158199296"
    using exp_partial_step [OF s17 a16] by (simp add: numeral_2_eq_2)
  have a15: "1 + (399572145162582993 / 576460752303423488) / real (Suc 15) * (10199404934320782289 / 9799832789158199296) = 94462901822362668235793461210710442145 / 90387503713374279357458880099063431168"
    by simp
  have s15: "exp_partial 3 (Suc 14) (399572145162582993 / 576460752303423488) = 94462901822362668235793461210710442145 / 90387503713374279357458880099063431168"
    using exp_partial_step [OF s16 a15] by simp
  have a14: "1 + (399572145162582993 / 576460752303423488) / real (Suc 14) * (94462901822362668235793461210710442145 / 90387503713374279357458880099063431168) = 54621164677403149292226747990189125509386647378594969983 / 52104848389440221184183798923110512243037130154242473984"
    by simp
  have s14: "exp_partial 4 (Suc 13) (399572145162582993 / 576460752303423488) = 54621164677403149292226747990189125509386647378594969983 / 52104848389440221184183798923110512243037130154242473984"
    using exp_partial_step [OF s15 a14] by simp
  have a13: "1 + (399572145162582993 / 576460752303423488) / real (Suc 13) * (54621164677403149292226747990189125509386647378594969983 / 52104848389440221184183798923110512243037130154242473984) = 442334697358684152267673162177184970925302690445189862000307773797224805807 / 420509601417255470440824805176814606766941167456397312032942275907643506688"
    by simp
  have s13: "exp_partial 5 (Suc 12) (399572145162582993 / 576460752303423488) = 442334697358684152267673162177184970925302690445189862000307773797224805807 / 420509601417255470440824805176814606766941167456397312032942275907643506688"
    using exp_partial_step [OF s14 a13] by simp
  have a12: "1 + (399572145162582993 / 576460752303423488) / real (Suc 12) * (442334697358684152267673162177184970925302690445189862000307773797224805807 / 420509601417255470440824805176814606766941167456397312032942275907643506688) = 3328039279292901335560710323556724723893548564684312588669357713204826786222513114502661581023 / 3151294655389449975457285479969308015146621605001203379734109275151227870733881884465715740672"
    by simp
  have s12: "exp_partial 6 (Suc 11) (399572145162582993 / 576460752303423488) = 3328039279292901335560710323556724723893548564684312588669357713204826786222513114502661581023 / 3151294655389449975457285479969308015146621605001203379734109275151227870733881884465715740672"
    using exp_partial_step [OF s13 a12] by simp
  have a11: "1 + (399572145162582993 / 576460752303423488) / real (Suc 11) * (3328039279292901335560710323556724723893548564684312588669357713204826786222513114502661581023 / 3151294655389449975457285479969308015146621605001203379734109275151227870733881884465715740672) = 7709654682439707092680839841298329477603871360502439602615807465270984566279552648544380181761156310728750596357 / 7266390751102240007090052966466208762700361806322341679968358265920654723704598524076684701002474367180806815744"
    by simp
  have s11: "exp_partial 7 (Suc 10) (399572145162582993 / 576460752303423488) = 7709654682439707092680839841298329477603871360502439602615807465270984566279552648544380181761156310728750596357 / 7266390751102240007090052966466208762700361806322341679968358265920654723704598524076684701002474367180806815744"
    using exp_partial_step [OF s12 a11] by simp
  have a10: "1 + (399572145162582993 / 576460752303423488) / real (Suc 10) * (7709654682439707092680839841298329477603871360502439602615807465270984566279552648544380181761156310728750596357 / 7266390751102240007090052966466208762700361806322341679968358265920654723704598524076684701002474367180806815744) = 49157243127946579362123695592627263387811642111241990635017507991660320395647914212393920337662810497260764940097666870798651702293 / 46076679868021393032661986495666850958376806359052998691089893577459971479422198464132074676439592969221978747002152911927395745792"
    by simp
  have s10: "exp_partial 8 (Suc 9) (399572145162582993 / 576460752303423488) = 49157243127946579362123695592627263387811642111241990635017507991660320395647914212393920337662810497260764940097666870798651702293 / 46076679868021393032661986495666850958376806359052998691089893577459971479422198464132074676439592969221978747002152911927395745792"
    using exp_partial_step [OF s11 a10] by simp
  have a9: "1 + (399572145162582993 / 576460752303423488) / real (Suc 9) * (49157243127946579362123695592627263387811642111241990635017507991660320395647914212393920337662810497260764940097666870798651702293 / 46076679868021393032661986495666850958376806359052998691089893577459971479422198464132074676439592969221978747002152911927395745792) = 285255840490548454883609933917030778207637586878000097677645789475226227786041597463821851180294509106753665261356977235550190526636748277894040527909 / 265613975403636199007103200296951555124619472968649070370851369909724754397479757787936244779157214366133874434464882509059191010672243755285699624960"
    by simp
  have s9: "exp_partial 9 (Suc 8) (399572145162582993 / 576460752303423488) = 285255840490548454883609933917030778207637586878000097677645789475226227786041597463821851180294509106753665261356977235550190526636748277894040527909 / 265613975403636199007103200296951555124619472968649070370851369909724754397479757787936244779157214366133874434464882509059191010672243755285699624960"
    using exp_partial_step [OF s10 a9] by simp
  have a8: "1 + (399572145162582993 / 576460752303423488) / real (Suc 8) * (285255840490548454883609933917030778207637586878000097677645789475226227786041597463821851180294509106753665261356977235550190526636748277894040527909 / 265613975403636199007103200296951555124619472968649070370851369909724754397479757787936244779157214366133874434464882509059191010672243755285699624960) = 165780508539590261988347612308922374338127725453796680321305473867777787980957576136593815545543201934373792708849490190916215069629975342589496540694580580056293421773 / 153116032083483145692573867570584706584771271724287430690951115158271280220573418178438230710859821432240408272501250144623270126932692995615715805665564986645655060480"
    by simp
  have s8: "exp_partial 10 (Suc 7) (399572145162582993 / 576460752303423488) = 165780508539590261988347612308922374338127725453796680321305473867777787980957576136593815545543201934373792708849490190916215069629975342589496540694580580056293421773 / 153116032083483145692573867570584706584771271724287430690951115158271280220573418178438230710859821432240408272501250144623270126932692995615715805665564986645655060480"
    using exp_partial_step [OF s9 a8] by simp
  have a7: "1 + (399572145162582993 / 576460752303423488) / real (Suc 7) * (165780508539590261988347612308922374338127725453796680321305473867777787980957576136593815545543201934373792708849490190916215069629975342589496540694580580056293421773 / 153116032083483145692573867570584706584771271724287430690951115158271280220573418178438230710859821432240408272501250144623270126932692995615715805665564986645655060480) = 772364337779786561413281110407949094754154866108799324842684872687149851653747616152601262124908494417792861530399287372275362130919495066330849271470987270824909900357290481728606140509 / 706123064356478571750056446164324893067787975340695487272261007793458388918134579272838148519328652674022634364645055295168182858502821804143109490521173200627201307484834875645540433920"
    by simp
  have s7: "exp_partial 11 (Suc 6) (399572145162582993 / 576460752303423488) = 772364337779786561413281110407949094754154866108799324842684872687149851653747616152601262124908494417792861530399287372275362130919495066330849271470987270824909900357290481728606140509 / 706123064356478571750056446164324893067787975340695487272261007793458388918134579272838148519328652674022634364645055295168182858502821804143109490521173200627201307484834875645540433920"
    using exp_partial_step [OF s8 a7] by simp
  have a6: "1 + (399572145162582993 / 576460752303423488) / real (Suc 6) * (772364337779786561413281110407949094754154866108799324842684872687149851653747616152601262124908494417792861530399287372275362130919495066330849271470987270824909900357290481728606140509 / 706123064356478571750056446164324893067787975340695487272261007793458388918134579272838148519328652674022634364645055295168182858502821804143109490521173200627201307484834875645540433920) = 3157980905577887656519282529281398039377895986559222019947566996716286810231819085468677650100480557346757619905855820332282851120246827947583975908264245247408312325754756700567449322707620587462411154157 / 2849365630284140496810502890451962441655682264229170173028140756708327469312798577672573829362818554371674437184897638488824494516891920886209491835258092555549484534281642445839646803394419465615279390720"
    by simp
  have s6: "exp_partial 12 (Suc 5) (399572145162582993 / 576460752303423488) = 3157980905577887656519282529281398039377895986559222019947566996716286810231819085468677650100480557346757619905855820332282851120246827947583975908264245247408312325754756700567449322707620587462411154157 / 2849365630284140496810502890451962441655682264229170173028140756708327469312798577672573829362818554371674437184897638488824494516891920886209491835258092555549484534281642445839646803394419465615279390720"
    using exp_partial_step [OF s7 a6] by simp
  have a5: "1 + (399572145162582993 / 576460752303423488) / real (Suc 5) * (3157980905577887656519282529281398039377895986559222019947566996716286810231819085468677650100480557346757619905855820332282851120246827947583975908264245247408312325754756700567449322707620587462411154157 / 2849365630284140496810502890451962441655682264229170173028140756708327469312798577672573829362818554371674437184897638488824494516891920886209491835258092555549484534281642445839646803394419465615279390720) = 3705708644583639132836382318005033248433947526339797391683571906093958917219989481618385930429132309849323890585581757341659337885247633935937172963664856394144542060565859406168219776442033797465395372098772732935030946687 / 3285094909642228125186336876704815102095214127205547491823849166039386976355425821389529253857722675870863113674707923714740908196939141125882103294408950520038378902552047476235267185969319839052014188513274320533554462720"
    by simp
  have s5: "exp_partial 13 (Suc 4) (399572145162582993 / 576460752303423488) = 3705708644583639132836382318005033248433947526339797391683571906093958917219989481618385930429132309849323890585581757341659337885247633935937172963664856394144542060565859406168219776442033797465395372098772732935030946687 / 3285094909642228125186336876704815102095214127205547491823849166039386976355425821389529253857722675870863113674707923714740908196939141125882103294408950520038378902552047476235267185969319839052014188513274320533554462720"
    using exp_partial_step [OF s6 a5] by simp
  have a4: "1 + (399572145162582993 / 576460752303423488) / real (Suc 4) * (3705708644583639132836382318005033248433947526339797391683571906093958917219989481618385930429132309849323890585581757341659337885247633935937172963664856394144542060565859406168219776442033797465395372098772732935030946687 / 3285094909642228125186336876704815102095214127205547491823849166039386976355425821389529253857722675870863113674707923714740908196939141125882103294408950520038378902552047476235267185969319839052014188513274320533554462720) = 10949339367466341682311532435425446776664430678725638315758044856275618533291024064158174412289913274051145456326404349045077489348570383553055004920680888924306460893835961818353439491404894952987474101790622742796775000804713647257337730991 / 9468641415002529159475777929531639904237824280213697721460364273542408367772084650129812745280488438117588377237071683033392765095675523865315945262880279353389848181177734138841192988628499207635993763888963176506245377248241407782341836800"
    by simp
  have s4: "exp_partial 14 (Suc 3) (399572145162582993 / 576460752303423488) = 10949339367466341682311532435425446776664430678725638315758044856275618533291024064158174412289913274051145456326404349045077489348570383553055004920680888924306460893835961818353439491404894952987474101790622742796775000804713647257337730991 / 9468641415002529159475777929531639904237824280213697721460364273542408367772084650129812745280488438117588377237071683033392765095675523865315945262880279353389848181177734138841192988628499207635993763888963176506245377248241407782341836800"
    using exp_partial_step [OF s5 a4] by simp
  have a3: "1 + (399572145162582993 / 576460752303423488) / real (Suc 3) * (10949339367466341682311532435425446776664430678725638315758044856275618533291024064158174412289913274051145456326404349045077489348570383553055004920680888924306460893835961818353439491404894952987474101790622742796775000804713647257337730991 / 9468641415002529159475777929531639904237824280213697721460364273542408367772084650129812745280488438117588377237071683033392765095675523865315945262880279353389848181177734138841192988628499207635993763888963176506245377248241407782341836800) = 26208251632706486710778163420661527609431401106893209000098895688813074057933641868196150066937544037840426315920421046248637227907927981753737093613444514064447489413952872308278372345753120090446095474031291778862343169348203263548934266953102169332076669663 / 21833200613534840983738631189730643751528210230078694135389030701373386452823248579565125865348889007697727202423411376995469309801739670778753990765088839422821587678029924905023482236583132626224210692739566477658146378336518235025138709512551114120731033600"
    by simp
  have s3: "exp_partial 15 (Suc 2) (399572145162582993 / 576460752303423488) = 26208251632706486710778163420661527609431401106893209000098895688813074057933641868196150066937544037840426315920421046248637227907927981753737093613444514064447489413952872308278372345753120090446095474031291778862343169348203263548934266953102169332076669663 / 21833200613534840983738631189730643751528210230078694135389030701373386452823248579565125865348889007697727202423411376995469309801739670778753990765088839422821587678029924905023482236583132626224210692739566477658146378336518235025138709512551114120731033600"
    using exp_partial_step [OF s4 a3] by simp
  have a2: "1 + (399572145162582993 / 576460752303423488) / real (Suc 2) * (26208251632706486710778163420661527609431401106893209000098895688813074057933641868196150066937544037840426315920421046248637227907927981753737093613444514064447489413952872308278372345753120090446095474031291778862343169348203263548934266953102169332076669663 / 21833200613534840983738631189730643751528210230078694135389030701373386452823248579565125865348889007697727202423411376995469309801739670778753990765088839422821587678029924905023482236583132626224210692739566477658146378336518235025138709512551114120731033600) = 16076679026150294710109600126929876021667547049129413927620454277416643140549043622748771771919557193362382706276416533416963199788519915988801274502825976871686337922597633936681080742862305675733409879567519030480292900762952562346399774460381851370480613752425921522851477253 / 12585983250869861696048872567894108330383714926019351918872110339709673719730901707146621820816367312965143851440359182219957271788080079702349390515105379892350022682255497324219025930819648246359038719958641710302741796440854656553738200036846123608591469243591530524757196800"
    by simp
  have s2: "exp_partial 16 (Suc 1) (399572145162582993 / 576460752303423488) = 16076679026150294710109600126929876021667547049129413927620454277416643140549043622748771771919557193362382706276416533416963199788519915988801274502825976871686337922597633936681080742862305675733409879567519030480292900762952562346399774460381851370480613752425921522851477253 / 12585983250869861696048872567894108330383714926019351918872110339709673719730901707146621820816367312965143851440359182219957271788080079702349390515105379892350022682255497324219025930819648246359038719958641710302741796440854656553738200036846123608591469243591530524757196800"
    using exp_partial_step [OF s3 a2] by (simp add: numeral_2_eq_2)
  have a1: "1 + (399572145162582993 / 576460752303423488) / real (Suc 1) * (16076679026150294710109600126929876021667547049129413927620454277416643140549043622748771771919557193362382706276416533416963199788519915988801274502825976871686337922597633936681080742862305675733409879567519030480292900762952562346399774460381851370480613752425921522851477253 / 12585983250869861696048872567894108330383714926019351918872110339709673719730901707146621820816367312965143851440359182219957271788080079702349390515105379892350022682255497324219025930819648246359038719958641710302741796440854656553738200036846123608591469243591530524757196800) = 20934443872118635073930168247877635928272023234153949225780184688149577421503341874088700721405396187812820687946423245485558261132840935196018697072764186864738462443138661226234511685641663768874404262080248175566369738387008240550969515605835868412898312567754444912969302862008813963581035029 / 14510650746549456130657681958266306955040815838123246269912226865959365438692573886245020012909989750858238703957114614316818410689664091996679040859368337033514328354263938885564732412153996256726714184695637675913181934240938901358279513593888096435430342731087230464135504247640585212316876800"
    by simp
  have s1: "exp_partial 17 (Suc 0) (399572145162582993 / 576460752303423488) = 20934443872118635073930168247877635928272023234153949225780184688149577421503341874088700721405396187812820687946423245485558261132840935196018697072764186864738462443138661226234511685641663768874404262080248175566369738387008240550969515605835868412898312567754444912969302862008813963581035029 / 14510650746549456130657681958266306955040815838123246269912226865959365438692573886245020012909989750858238703957114614316818410689664091996679040859368337033514328354263938885564732412153996256726714184695637675913181934240938901358279513593888096435430342731087230464135504247640585212316876800"
    using exp_partial_step [OF s2 a1] by simp
  have a0: "1 + (399572145162582993 / 576460752303423488) / real (Suc 0) * (20934443872118635073930168247877635928272023234153949225780184688149577421503341874088700721405396187812820687946423245485558261132840935196018697072764186864738462443138661226234511685641663768874404262080248175566369738387008240550969515605835868412898312567754444912969302862008813963581035029 / 14510650746549456130657681958266306955040815838123246269912226865959365438692573886245020012909989750858238703957114614316818410689664091996679040859368337033514328354263938885564732412153996256726714184695637675913181934240938901358279513593888096435430342731087230464135504247640585212316876800) = 16729641291536266401419845388315867229459722592058709945344162612482754249594019533126295570065893275145527148276807939905704821784527563124809181824972805484147889811429723808501181563699612903483312622393485078140225847331893020950233606922219467727254164689400188872529310914913614161433073612338625797974940197 / 8364820645768133148937777539906165517337492177915180337403796030245296331748230166955117621159321595038987048928281447410530225965392380333877145738415436805373177225342403023682751600265950580240285854753677266475871746535137435929019943677544062368617636516498920023454795308181939580670188597901760919922278400"
    by simp
  have s0: "exp_partial 18 0 (399572145162582993 / 576460752303423488) = 16729641291536266401419845388315867229459722592058709945344162612482754249594019533126295570065893275145527148276807939905704821784527563124809181824972805484147889811429723808501181563699612903483312622393485078140225847331893020950233606922219467727254164689400188872529310914913614161433073612338625797974940197 / 8364820645768133148937777539906165517337492177915180337403796030245296331748230166955117621159321595038987048928281447410530225965392380333877145738415436805373177225342403023682751600265950580240285854753677266475871746535137435929019943677544062368617636516498920023454795308181939580670188597901760919922278400"
    using exp_partial_step [OF s1 a0] by simp
  have "(2::real) < 16729641291536266401419845388315867229459722592058709945344162612482754249594019533126295570065893275145527148276807939905704821784527563124809181824972805484147889811429723808501181563699612903483312622393485078140225847331893020950233606922219467727254164689400188872529310914913614161433073612338625797974940197 / 8364820645768133148937777539906165517337492177915180337403796030245296331748230166955117621159321595038987048928281447410530225965392380333877145738415436805373177225342403023682751600265950580240285854753677266475871746535137435929019943677544062368617636516498920023454795308181939580670188597901760919922278400" by simp
  also have "\<dots> = exp_partial 18 0 (399572145162582993 / 576460752303423488)" by (simp only: s0)
  also have "\<dots> \<le> exp (399572145162582993 / 576460752303423488)" by (rule exp_ge_taylor) simp
  finally have "ln 2 < ln (exp (399572145162582993 / 576460752303423488 :: real))" by (subst ln_less_cancel_iff) simp_all
  then show ?thesis by simp
qed

lemma ln2_lower: "199786072581291493 / 288230376151711744 < ln (2::real)"
proof -
  have s18: "exp_partial 0 (Suc 17) (- (199786072581291493 / 288230376151711744)) = 0"
    by (rule exp_partial_0)
  have a17: "1 + (- (199786072581291493 / 288230376151711744)) / real (Suc 17) * (0) = 1"
    by simp
  have s17: "exp_partial 1 (Suc 16) (- (199786072581291493 / 288230376151711744)) = 1"
    using exp_partial_step [OF s18 a17] by simp
  have a16: "1 + (- (199786072581291493 / 288230376151711744)) / real (Suc 16) * (1) = 4700130321997808155 / 4899916394579099648"
    by simp
  have s16: "exp_partial 2 (Suc 15) (- (199786072581291493 / 288230376151711744)) = 4700130321997808155 / 4899916394579099648"
    using exp_partial_step [OF s17 a16] by (simp add: numeral_2_eq_2)
  have a15: "1 + (- (199786072581291493 / 288230376151711744)) / real (Suc 15) * (4700130321997808155 / 4899916394579099648) = 21657855350691386783299026219618332377 / 22596875928343569839364720024765857792"
    by simp
  have s15: "exp_partial 3 (Suc 14) (- (199786072581291493 / 288230376151711744)) = 21657855350691386783299026219618332377 / 22596875928343569839364720024765857792"
    using exp_partial_step [OF s16 a15] by simp
  have a14: "1 + (- (199786072581291493 / 288230376151711744)) / real (Suc 14) * (21657855350691386783299026219618332377 / 22596875928343569839364720024765857792) = 93369652869152072998695160525485296074255279577608069859 / 97696590730200414720344622980832210455694619039204638720"
    by simp
  have s14: "exp_partial 4 (Suc 13) (- (199786072581291493 / 288230376151711744)) = 93369652869152072998695160525485296074255279577608069859 / 97696590730200414720344622980832210455694619039204638720"
    using exp_partial_step [OF s15 a14] by simp
  have a13: "1 + (- (199786072581291493 / 288230376151711744)) / real (Suc 13) * (93369652869152072998695160525485296074255279577608069859 / 97696590730200414720344622980832210455694619039204638720) = 375573795083670595986005545449011033733840849553749454269451975518229378033 / 394227751328677003538273254853263693844007344490372480030883383663415787520"
    by simp
  have s13: "exp_partial 5 (Suc 12) (- (199786072581291493 / 288230376151711744)) = 375573795083670595986005545449011033733840849553749454269451975518229378033 / 394227751328677003538273254853263693844007344490372480030883383663415787520"
    using exp_partial_step [OF s14 a13] by simp
  have a12: "1 + (- (199786072581291493 / 288230376151711744)) / real (Suc 12) * (375573795083670595986005545449011033733840849553749454269451975518229378033 / 394227751328677003538273254853263693844007344490372480030883383663415787520) = 1402134956229587364205796613179232770765300341366209815848238878925485889433499973094040280171 / 1477169369713804675995602568735613132099978877344314084250363722727138064406507133343304253440"
    by simp
  have s12: "exp_partial 6 (Suc 11) (- (199786072581291493 / 288230376151711744)) = 1402134956229587364205796613179232770765300341366209815848238878925485889433499973094040280171 / 1477169369713804675995602568735613132099978877344314084250363722727138064406507133343304253440"
    using exp_partial_step [OF s13 a12] by simp
  have a11: "1 + (- (199786072581291493 / 288230376151711744)) / real (Suc 11) * (1402134956229587364205796613179232770765300341366209815848238878925485889433499973094040280171 / 1477169369713804675995602568735613132099978877344314084250363722727138064406507133343304253440) = 4829053960734712193215497497355448416499516412055894133065415148381576106712208643985622812631926707249265907017 / 5109180996868762504985193492046553036273691895070396493727751905725460352604795837241418930392364789424004792320"
    by simp
  have s11: "exp_partial 7 (Suc 10) (- (199786072581291493 / 288230376151711744)) = 4829053960734712193215497497355448416499516412055894133065415148381576106712208643985622812631926707249265907017 / 5109180996868762504985193492046553036273691895070396493727751905725460352604795837241418930392364789424004792320"
    using exp_partial_step [OF s12 a11] by simp
  have a10: "1 + (- (199786072581291493 / 288230376151711744)) / real (Suc 10) * (4829053960734712193215497497355448416499516412055894133065415148381576106712208643985622812631926707249265907017 / 5109180996868762504985193492046553036273691895070396493727751905725460352604795837241418930392364789424004792320) = 1384914094636632056209014191376441895649797768184445417281939290838343921585248976305111946657869239029018655243000092148323996409 / 1472621160554660998913202693398443390004940544145869986576026428256888293021306058867857500312344945749281991203904034827225006080"
    by simp
  have s10: "exp_partial 8 (Suc 9) (- (199786072581291493 / 288230376151711744)) = 1384914094636632056209014191376441895649797768184445417281939290838343921585248976305111946657869239029018655243000092148323996409 / 1472621160554660998913202693398443390004940544145869986576026428256888293021306058867857500312344945749281991203904034827225006080"
    using exp_partial_step [OF s11 a10] by simp
  have a9: "1 + (- (199786072581291493 / 288230376151711744)) / real (Suc 9) * (1384914094636632056209014191376441895649797768184445417281939290838343921585248976305111946657869239029018655243000092148323996409 / 1472621160554660998913202693398443390004940544145869986576026428256888293021306058867857500312344945749281991203904034827225006080) = 3967854962526474560316043014830748034536631266547345965232856017183370141699351177116277036224396910548689563739715784258043498723224255559759786563 / 4244541510356402327883396311563501413568137884797304036466019760631254953084726243060060729780566280708815465039389102595050992713157304328074035200"
    by simp
  have s9: "exp_partial 9 (Suc 8) (- (199786072581291493 / 288230376151711744)) = 3967854962526474560316043014830748034536631266547345965232856017183370141699351177116277036224396910548689563739715784258043498723224255559759786563 / 4244541510356402327883396311563501413568137884797304036466019760631254953084726243060060729780566280708815465039389102595050992713157304328074035200"
    using exp_partial_step [OF s10 a9] by simp
  have a8: "1 + (- (199786072581291493 / 288230376151711744)) / real (Suc 8) * (3967854962526474560316043014830748034536631266547345965232856017183370141699351177116277036224396910548689563739715784258043498723224255559759786563 / 4244541510356402327883396311563501413568137884797304036466019760631254953084726243060060729780566280708815465039389102595050992713157304328074035200) = 10217930005558872904319091394201595299832697885026238583427189457973721612714977451553841556213968457466960065967226683406045858721516324798469145858230389583216890641 / 11010652165094224787907034155910299390417678453184731787967898018306084603929729112618516235422270539782912881811613336039137855363590316623644336167356857171784499200"
    by simp
  have s8: "exp_partial 10 (Suc 7) (- (199786072581291493 / 288230376151711744)) = 10217930005558872904319091394201595299832697885026238583427189457973721612714977451553841556213968457466960065967226683406045858721516324798469145858230389583216890641 / 11010652165094224787907034155910299390417678453184731787967898018306084603929729112618516235422270539782912881811613336039137855363590316623644336167356857171784499200"
    using exp_partial_step [OF s9 a8] by simp
  have a7: "1 + (- (199786072581291493 / 288230376151711744)) / real (Suc 7) * (10217930005558872904319091394201595299832697885026238583427189457973721612714977451553841556213968457466960065967226683406045858721516324798469145858230389583216890641 / 11010652165094224787907034155910299390417678453184731787967898018306084603929729112618516235422270539782912881811613336039137855363590316623644336167356857171784499200) = 23347435216045000658124325163428764731840887643093860790829533233623950445753459374619308562464920812042349253184406426974297176419117868854117150391997545639563690534205519070864221387 / 25388835321766141828726283797634195817867021485527492218152140283766925382798695366255277889766344489788633426640735741703046347451495279712176788322183517955789819738224265326388838400"
    by simp
  have s7: "exp_partial 11 (Suc 6) (- (199786072581291493 / 288230376151711744)) = 23347435216045000658124325163428764731840887643093860790829533233623950445753459374619308562464920812042349253184406426974297176419117868854117150391997545639563690534205519070864221387 / 25388835321766141828726283797634195817867021485527492218152140283766925382798695366255277889766344489788633426640735741703046347451495279712176788322183517955789819738224265326388838400"
    using exp_partial_step [OF s8 a7] by simp
  have a6: "1 + (- (199786072581291493 / 288230376151711744)) / real (Suc 6) * (23347435216045000658124325163428764731840887643093860790829533233623950445753459374619308562464920812042349253184406426974297176419117868854117150391997545639563690534205519070864221387 / 25388835321766141828726283797634195817867021485527492218152140283766925382798695366255277889766344489788633426640735741703046347451495279712176788322183517955789819738224265326388838400) = 46560342497265876165919678619636319380882662375053864218995456620325593348070512575435506868799891528356876103057444509652741775125765460998806716152504254373302479537931410285855764404353170156255426409 / 51224834883925643697099328419435581892336262296378458810209384164900240814616629259472318931638028876088784936962160137960490069217916724028535342386342661798541425620741530120963110590142928070587187200"
    by simp
  have s6: "exp_partial 12 (Suc 5) (- (199786072581291493 / 288230376151711744)) = 46560342497265876165919678619636319380882662375053864218995456620325593348070512575435506868799891528356876103057444509652741775125765460998806716152504254373302479537931410285855764404353170156255426409 / 51224834883925643697099328419435581892336262296378458810209384164900240814616629259472318931638028876088784936962160137960490069217916724028535342386342661798541425620741530120963110590142928070587187200"
    using exp_partial_step [OF s7 a6] by simp
  have a5: "1 + (- (199786072581291493 / 288230376151711744)) / real (Suc 5) * (46560342497265876165919678619636319380882662375053864218995456620325593348070512575435506868799891528356876103057444509652741775125765460998806716152504254373302479537931410285855764404353170156255426409 / 51224834883925643697099328419435581892336262296378458810209384164900240814616629259472318931638028876088784936962160137960490069217916724028535342386342661798541425620741530120963110590142928070587187200) = 79285212595850730907601656634385613973556653929213326461008669088939644940736844014011024850786797706728759220088040680080368666929897123342435774187483106209374252399555096638859397786874141473401906155410411290359622163 / 88587320561419282051256199067745701994089248147965647251553105840240038535862978803894665381683528302181700175665175055784139813993276288794983032286640511404621590167807565776497017732437935112930514005762346844998860800"
    by simp
  have s5: "exp_partial 13 (Suc 4) (- (199786072581291493 / 288230376151711744)) = 79285212595850730907601656634385613973556653929213326461008669088939644940736844014011024850786797706728759220088040680080368666929897123342435774187483106209374252399555096638859397786874141473401906155410411290359622163 / 88587320561419282051256199067745701994089248147965647251553105840240038535862978803894665381683528302181700175665175055784139813993276288794983032286640511404621590167807565776497017732437935112930514005762346844998860800"
    using exp_partial_step [OF s6 a5] by simp
  have a4: "1 + (- (199786072581291493 / 288230376151711744)) / real (Suc 4) * (79285212595850730907601656634385613973556653929213326461008669088939644940736844014011024850786797706728759220088040680080368666929897123342435774187483106209374252399555096638859397786874141473401906155410411290359622163 / 88587320561419282051256199067745701994089248147965647251553105840240038535862978803894665381683528302181700175665175055784139813993276288794983032286640511404621590167807565776497017732437935112930514005762346844998860800) = 111827702400152977660694812730158188564235277403973691926580469375367347316991224604421051437007940787220627346094411240116810047364352816533306102381339460498021936604592127340924692916144711986297020299209281704305526900649563239860016641 / 127667783638450738289718019624255842547595841846364998352875783384610553165428387450147843633653602764480533983742920974848768306010806124560090481782665343288004544790160544419079029221231651026253245107478363142035335286716678249906176000"
    by simp
  have s4: "exp_partial 14 (Suc 3) (- (199786072581291493 / 288230376151711744)) = 111827702400152977660694812730158188564235277403973691926580469375367347316991224604421051437007940787220627346094411240116810047364352816533306102381339460498021936604592127340924692916144711986297020299209281704305526900649563239860016641 / 127667783638450738289718019624255842547595841846364998352875783384610553165428387450147843633653602764480533983742920974848768306010806124560090481782665343288004544790160544419079029221231651026253245107478363142035335286716678249906176000"
    using exp_partial_step [OF s5 a4] by simp
  have a3: "1 + (- (199786072581291493 / 288230376151711744)) / real (Suc 3) * (111827702400152977660694812730158188564235277403973691926580469375367347316991224604421051437007940787220627346094411240116810047364352816533306102381339460498021936604592127340924692916144711986297020299209281704305526900649563239860016641 / 127667783638450738289718019624255842547595841846364998352875783384610553165428387450147843633653602764480533983742920974848768306010806124560090481782665343288004544790160544419079029221231651026253245107478363142035335286716678249906176000) = 124849315733947998159629621538266517431296758552947831621821270866506116154970138021916212654235287063111457400479191505351978553650917932340379929574727122477717420915860540994067023996259117284405214309510796916010247249355210865218551617473068853072040987 / 147190933202264025852508194777181352972449703865997943528595926747651059460339616389446621573147306376246995688390252258575412882907457941207531176644525367868476057732634714353268881599834129421511097254963674484833584038079665613656025457529239189323776000"
    by simp
  have s3: "exp_partial 15 (Suc 2) (- (199786072581291493 / 288230376151711744)) = 124849315733947998159629621538266517431296758552947831621821270866506116154970138021916212654235287063111457400479191505351978553650917932340379929574727122477717420915860540994067023996259117284405214309510796916010247249355210865218551617473068853072040987 / 147190933202264025852508194777181352972449703865997943528595926747651059460339616389446621573147306376246995688390252258575412882907457941207531176644525367868476057732634714353268881599834129421511097254963674484833584038079665613656025457529239189323776000"
    using exp_partial_step [OF s4 a3] by simp
  have a2: "1 + (- (199786072581291493 / 288230376151711744)) / real (Suc 2) * (124849315733947998159629621538266517431296758552947831621821270866506116154970138021916212654235287063111457400479191505351978553650917932340379929574727122477717420915860540994067023996259117284405214309510796916010247249355210865218551617473068853072040987 / 147190933202264025852508194777181352972449703865997943528595926747651059460339616389446621573147306376246995688390252258575412882907457941207531176644525367868476057732634714353268881599834129421511097254963674484833584038079665613656025457529239189323776000) = 102331539674082999451944759206210747536405100943170639206859557308013780477977333455354851667593565181131834403696846515290131688791099001900803561001670161874732497693112590767384327123116504110414542481360355328628129363772240427527356640064526809449364569165919306985608409 / 127274694129030112199535412902759967774127310750345508212804183095042171709703304561405352608075669321949211366133559401610618607032226258753172519829653957596146552836529229588673954406287780367705455805689722329028025812397114765897926300421431442408657851875696712876032000"
    by simp
  have s2: "exp_partial 16 (Suc 1) (- (199786072581291493 / 288230376151711744)) = 102331539674082999451944759206210747536405100943170639206859557308013780477977333455354851667593565181131834403696846515290131688791099001900803561001670161874732497693112590767384327123116504110414542481360355328628129363772240427527356640064526809449364569165919306985608409 / 127274694129030112199535412902759967774127310750345508212804183095042171709703304561405352608075669321949211366133559401610618607032226258753172519829653957596146552836529229588673954406287780367705455805689722329028025812397114765897926300421431442408657851875696712876032000"
    using exp_partial_step [OF s3 a2] by (simp add: numeral_2_eq_2)
  have a1: "1 + (- (199786072581291493 / 288230376151711744)) / real (Suc 1) * (102331539674082999451944759206210747536405100943170639206859557308013780477977333455354851667593565181131834403696846515290131688791099001900803561001670161874732497693112590767384327123116504110414542481360355328628129363772240427527356640064526809449364569165919306985608409 / 127274694129030112199535412902759967774127310750345508212804183095042171709703304561405352608075669321949211366133559401610618607032226258753172519829653957596146552836529229588673954406287780367705455805689722329028025812397114765897926300421431442408657851875696712876032000) = 52924449514127158995333360513036066774059037521392610495165971294228694038717258616908628891191145229783088112526728962220208900155728277241548451980951362373179138142609296656695976961049265967098767797886150314122144249430352965011791748052623458802992759238495851519780865307575051458651363 / 73368865926808815135951996873169900861044829947675160708105006722775389271177023891605859856424383880446389043528723656650616880886876352938419833002815369328113523797180255179503631095610623939887131019197775169654912983715018942331388753786568536248146194811474824443156728547044141039616000"
    by simp
  have s1: "exp_partial 17 (Suc 0) (- (199786072581291493 / 288230376151711744)) = 52924449514127158995333360513036066774059037521392610495165971294228694038717258616908628891191145229783088112526728962220208900155728277241548451980951362373179138142609296656695976961049265967098767797886150314122144249430352965011791748052623458802992759238495851519780865307575051458651363 / 73368865926808815135951996873169900861044829947675160708105006722775389271177023891605859856424383880446389043528723656650616880886876352938419833002815369328113523797180255179503631095610623939887131019197775169654912983715018942331388753786568536248146194811474824443156728547044141039616000"
    using exp_partial_step [OF s2 a1] by simp
  have a0: "1 + (- (199786072581291493 / 288230376151711744)) / real (Suc 0) * (52924449514127158995333360513036066774059037521392610495165971294228694038717258616908628891191145229783088112526728962220208900155728277241548451980951362373179138142609296656695976961049265967098767797886150314122144249430352965011791748052623458802992759238495851519780865307575051458651363 / 73368865926808815135951996873169900861044829947675160708105006722775389271177023891605859856424383880446389043528723656650616880886876352938419833002815369328113523797180255179503631095610623939887131019197775169654912983715018942331388753786568536248146194811474824443156728547044141039616000) = 10573567911954305993341057603848369642523879736170567498694245324853759930119221526561212642178971901483798699454525037200910568217614903195310548329893367633634821769371812038325371175199428274804112959124370279438499423522145841956954038266076008771626645296097662496230605339608373010058171154550701885549041 / 21147135823908611871808276875553459382972827556610684710302759711694963718221698385447695457545698140867134644486573566652736784254493870348137731528905880429066904925518423615419997879700671015635987674073065765592091311451704513522947619840204486731519723443214113745597651324409602613652203257718116450304000"
    by simp
  have s0: "exp_partial 18 0 (- (199786072581291493 / 288230376151711744)) = 10573567911954305993341057603848369642523879736170567498694245324853759930119221526561212642178971901483798699454525037200910568217614903195310548329893367633634821769371812038325371175199428274804112959124370279438499423522145841956954038266076008771626645296097662496230605339608373010058171154550701885549041 / 21147135823908611871808276875553459382972827556610684710302759711694963718221698385447695457545698140867134644486573566652736784254493870348137731528905880429066904925518423615419997879700671015635987674073065765592091311451704513522947619840204486731519723443214113745597651324409602613652203257718116450304000"
    using exp_partial_step [OF s1 a0] by simp
  have "(1 / 2 :: real) < 10573567911954305993341057603848369642523879736170567498694245324853759930119221526561212642178971901483798699454525037200910568217614903195310548329893367633634821769371812038325371175199428274804112959124370279438499423522145841956954038266076008771626645296097662496230605339608373010058171154550701885549041 / 21147135823908611871808276875553459382972827556610684710302759711694963718221698385447695457545698140867134644486573566652736784254493870348137731528905880429066904925518423615419997879700671015635987674073065765592091311451704513522947619840204486731519723443214113745597651324409602613652203257718116450304000" by simp
  also have "\<dots> = exp_partial 18 0 (- (199786072581291493 / 288230376151711744))" by (simp only: s0)
  also have "\<dots> \<le> exp (- (199786072581291493 / 288230376151711744))" by (rule exp_ge_taylor) simp
  finally have "ln (1 / 2) < ln (exp (- (199786072581291493 / 288230376151711744) :: real))" by (subst ln_less_cancel_iff) simp_all
  then have "- ln 2 < - (199786072581291493 / 288230376151711744 :: real)" by (simp add: ln_div)
  then show ?thesis by simp
qed

subsection \<open>The examples\<close>

text \<open>
  The floats \<^verbatim>\<open>0.01\<close>, \<^verbatim>\<open>0.1\<close> and \<^verbatim>\<open>0.005373233957829034\<close>, the logarithm at
  \<open>0.5\<close>, and the three quotients.
\<close>

lemma ln_half: "ln (1 / 2 :: real) = - ln 2"
  by (simp add: ln_div)

lemma nearest_half: "nearest (1 / 2) = 1 / 2"
  using nearest_pow2 [of "- 1"] by simp

lemma representable_half: "representable (1 / 2)"
proof -
  have "to_float (1 / 2) = Finite (nearest (1 / 2))"
    by (rule to_float_finite) (simp add: nearest_half)
  then show ?thesis by (simp add: representable_def nearest_half)
qed

lemma nearest_ln2: "nearest (ln 2) = 6243314768165359 / 2 ^ 53"
proof -
  have l: "199786072581291493 / 2 ^ 58 < ln (2::real)" using ln2_lower by simp
  have u: "ln (2::real) < 399572145162582993 / 2 ^ 59" using ln2_upper by simp
  have lo: "2 powi (- 1) \<le> \<bar>ln (2::real)\<bar>" using l by simp
  have hi: "\<bar>ln (2::real)\<bar> < 2 powi (- 1 + 1)" using l u by simp
  have "nearest (ln 2) =
      2 powi (- 1 - 52) * of_int (round_half_even (ln 2 / 2 powi (- 1 - 52)))"
    by (rule nearest_eval [OF lo hi]) simp
  also have "round_half_even (ln 2 / 2 powi (- 1 - 52)) = 6243314768165359"
    by (rule rhe_eqI) (use l u in simp_all)
  finally show ?thesis by simp
qed

lemma nearest_log_half: "nearest_log (1 / 2) = - (6243314768165359 / 2 ^ 53)"
  by (simp only: nearest_log_def ln_half nearest_minus nearest_ln2)

lemma ln_pow2: "ln ((2::real) powi k) = of_int k * ln 2"
proof -
  have "ln ((2::real) powi k) = ln (2 powr of_int k)" by (simp only: powi_powr)
  also have "\<dots> = of_int k * ln 2" by (rule ln_powr)
  finally show ?thesis .
qed

lemma nearest_bounded:
  assumes "\<bar>y\<bar> \<le> 2 ^ 11"
  shows "\<bar>nearest y\<bar> \<le> 2 ^ 11"
proof -
  have p: "(2::real) powi 11 = 2 ^ 11" by simp
  have "y \<le> 2 powi 11" using assms by (simp add: abs_le_iff)
  then have "nearest y \<le> 2 powi 11" by (rule nearest_le_pow2) simp
  moreover have "- y \<le> 2 powi 11" using assms by (simp add: abs_le_iff)
  then have "nearest (- y) \<le> 2 powi 11" by (rule nearest_le_pow2) simp
  ultimately show ?thesis by (simp add: nearest_minus abs_le_iff)
qed

lemma nearest_log_contract: "log_contract nearest_log"
  unfolding log_contract_def
proof (intro allI impI conjI)
  fix x :: real
  assume x: "0 < x" and "x \<le> 1"
  then have "ln x \<le> 0" by simp
  then have "nearest (ln x) \<le> nearest 0" by (rule nearest_mono)
  then show "nearest_log x \<le> 0" by (simp add: nearest_log_def nearest_zero)
next
  fix x :: real
  assume x: "0 < x" and r: "2 powi (- 1074) \<le> x \<and> x < 2 ^ 1024"
  have l2: "0 \<le> ln (2::real)" "ln (2::real) \<le> 1"
    using ln_2_less_1 by simp_all
  have "ln (2 powi (- 1074)) \<le> ln x"
    using r x by (subst ln_le_cancel_iff) simp_all
  then have "of_int (- 1074) * ln 2 \<le> ln x" by (simp only: ln_pow2)
  then have "- 1074 * ln 2 \<le> ln x" by simp
  moreover have "- 1074 \<le> - 1074 * ln (2::real)" using l2 by simp
  ultimately have lo: "- (2 ^ 11) \<le> ln x" by simp
  have "x \<le> 2 powi 1024" using r by simp
  then have "ln x \<le> ln (2 powi 1024)"
    using x by (subst ln_le_cancel_iff) simp_all
  then have "ln x \<le> of_int 1024 * ln 2" by (simp only: ln_pow2)
  then have "ln x \<le> 1024 * ln 2" by simp
  moreover have "1024 * ln (2::real) \<le> 1024" using l2 by simp
  ultimately have hi: "ln x \<le> 2 ^ 11" by simp
  have "\<bar>ln x\<bar> \<le> 2 ^ 11" using lo hi by (simp add: abs_le_iff)
  then have "\<bar>nearest (ln x)\<bar> \<le> 2 ^ 11" by (rule nearest_bounded)
  then show "\<bar>nearest_log x\<bar> \<le> 2 ^ 11" by (simp only: nearest_log_def)
qed

lemma nearest_0_01: "nearest (1 / 100) = 5764607523034235 / 2 ^ 59"
proof -
  have lo: "2 powi (- 7) \<le> \<bar>1 / 100 :: real\<bar>" by simp
  have hi: "\<bar>1 / 100 :: real\<bar> < 2 powi (- 7 + 1)" by simp
  have "nearest (1 / 100) =
      2 powi (- 7 - 52) * of_int (round_half_even (1 / 100 / 2 powi (- 7 - 52)))"
    by (rule nearest_eval [OF lo hi]) simp
  also have "round_half_even (1 / 100 / 2 powi (- 7 - 52)) = 5764607523034235"
    by (rule rhe_eqI_up) simp_all
  finally show ?thesis by simp
qed

lemma nearest_0_1: "nearest (1 / 10) = 3602879701896397 / 2 ^ 55"
proof -
  have lo: "2 powi (- 4) \<le> \<bar>1 / 10 :: real\<bar>" by simp
  have hi: "\<bar>1 / 10 :: real\<bar> < 2 powi (- 4 + 1)" by simp
  have "nearest (1 / 10) =
      2 powi (- 4 - 52) * of_int (round_half_even (1 / 10 / 2 powi (- 4 - 52)))"
    by (rule nearest_eval [OF lo hi]) simp
  also have "round_half_even (1 / 10 / 2 powi (- 4 - 52)) = 7205759403792794"
    by (rule rhe_eqI_up) simp_all
  finally show ?thesis by simp
qed


lemma nearest_quotient_0_01: "nearest (399572145162582976 / 5764607523034235) = 4877589662629187 / 2 ^ 46"
proof -
  have lo: "2 powi (6) \<le> \<bar>399572145162582976 / 5764607523034235 :: real\<bar>" by simp
  have hi: "\<bar>399572145162582976 / 5764607523034235 :: real\<bar> < 2 powi (6 + 1)" by simp
  have "nearest (399572145162582976 / 5764607523034235) =
      2 powi (6 - 52) * of_int (round_half_even (399572145162582976 / 5764607523034235 / 2 powi (6 - 52)))"
    by (rule nearest_eval [OF lo hi]) simp
  also have "round_half_even (399572145162582976 / 5764607523034235 / 2 powi (6 - 52)) = 4877589662629187"
    by (rule rhe_eqI_up) simp_all
  finally show ?thesis by simp
qed

lemma nearest_quotient_0_1: "nearest (24973259072661436 / 3602879701896397) = 3902071730103349 / 2 ^ 49"
proof -
  have lo: "2 powi (2) \<le> \<bar>24973259072661436 / 3602879701896397 :: real\<bar>" by simp
  have hi: "\<bar>24973259072661436 / 3602879701896397 :: real\<bar> < 2 powi (2 + 1)" by simp
  have "nearest (24973259072661436 / 3602879701896397) =
      2 powi (2 - 52) * of_int (round_half_even (24973259072661436 / 3602879701896397 / 2 powi (2 - 52)))"
    by (rule nearest_eval [OF lo hi]) simp
  also have "round_half_even (24973259072661436 / 3602879701896397 / 2 powi (2 - 52)) = 7804143460206698"
    by (rule rhe_eqI) simp_all
  finally show ?thesis by simp
qed



lemma float_0_01: "to_float (1 / 100) = Finite (5764607523034235 / 2 ^ 59)"
proof -
  have "to_float (1 / 100) = Finite (nearest (1 / 100))"
    by (rule to_float_finite) (simp only: nearest_0_01, simp)
  then show ?thesis by (simp only: nearest_0_01)
qed

lemma float_0_1: "to_float (1 / 10) = Finite (3602879701896397 / 2 ^ 55)"
proof -
  have "to_float (1 / 10) = Finite (nearest (1 / 10))"
    by (rule to_float_finite) (simp only: nearest_0_1, simp)
  then show ?thesis by (simp only: nearest_0_1)
qed


lemma example_0_01:
  "calculate_dist_threshold nearest_log (Finite (5764607523034235 / 2 ^ 59)) (Finite (1 / 2)) m = Inr (max 69 m)"
proof -
  have arg: "- nearest_log (nearest (1 - 1 / 2)) / (5764607523034235 / 2 ^ 59) = 399572145162582976 / 5764607523034235"
    by (simp add: nearest_half nearest_log_half)
  have fl: "\<lfloor>4877589662629187 / 2 ^ 46 :: real\<rfloor> = 69" by simp
  have ne: "\<not> (5764607523034235 / 2 ^ 59) \<le> epsilon" by (simp add: epsilon_def)
  show ?thesis
    using threshold_closed_form [OF nearest_log_contract representable_half, of "5764607523034235 / 2 ^ 59" m]
    unfolding arg nearest_quotient_0_01 fl using ne by simp
qed

lemma example_0_1:
  "calculate_dist_threshold nearest_log (Finite (3602879701896397 / 2 ^ 55)) (Finite (1 / 2)) m = Inr (max 6 m)"
proof -
  have arg: "- nearest_log (nearest (1 - 1 / 2)) / (3602879701896397 / 2 ^ 55) = 24973259072661436 / 3602879701896397"
    by (simp add: nearest_half nearest_log_half)
  have fl: "\<lfloor>3902071730103349 / 2 ^ 49 :: real\<rfloor> = 6" by simp
  have ne: "\<not> (3602879701896397 / 2 ^ 55) \<le> epsilon" by (simp add: epsilon_def)
  show ?thesis
    using threshold_closed_form [OF nearest_log_contract representable_half, of "3602879701896397 / 2 ^ 55" m]
    unfolding arg nearest_quotient_0_1 fl using ne by simp
qed


lemma example_epsilon:
  "calculate_dist_threshold nearest_log (Finite epsilon) (Finite (1 / 2)) m = Inr m"
  using threshold_closed_form [OF nearest_log_contract representable_half, of epsilon m]
  by simp


subsection \<open>The value of the threshold\<close>




subsection \<open>Monotonicity of the threshold\<close>

text \<open>
  Claim C7, amended.  Let the logarithm of the library meet its contract and let \<open>p\<close> be a
  float with \<open>0 < p < 1\<close>.  Then the calculator returns a threshold, which does not
  increase when the density increases from a density above the float \<^verbatim>\<open>1e-9\<close>, does
  not decrease when the floor \<open>m\<close> increases, whatever the density, and is never below
  \<open>m\<close>.
\<close>

theorem threshold_shape:
  assumes "log_contract libm_log" and "representable p" and "0 < p" and "p < 1"
  shows "\<exists>t1 t2 t3.
           calculate_dist_threshold libm_log (Finite d1) (Finite p) m1 = Inr t1 \<and>
           calculate_dist_threshold libm_log (Finite d2) (Finite p) m1 = Inr t2 \<and>
           calculate_dist_threshold libm_log (Finite d1) (Finite p) m2 = Inr t3 \<and>
           (epsilon < d1 \<and> d1 \<le> d2 \<longrightarrow> t2 \<le> t1) \<and>
           (m1 \<le> m2 \<longrightarrow> t1 \<le> t3) \<and>
           m1 \<le> t1"
proof -
  let ?a = "- libm_log (nearest (1 - p))"
  let ?t = "\<lambda>d m. if d \<le> epsilon then m else max \<lfloor>nearest (?a / d)\<rfloor> m"
  have e1: "calculate_dist_threshold libm_log (Finite d1) (Finite p) m1 = Inr (?t d1 m1)"
    and e2: "calculate_dist_threshold libm_log (Finite d2) (Finite p) m1 = Inr (?t d2 m1)"
    and e3: "calculate_dist_threshold libm_log (Finite d1) (Finite p) m2 = Inr (?t d1 m2)"
    using assms by (rule threshold_closed_form)+
  have a: "0 \<le> ?a" using assms by (rule neg_log_nonneg)
  have mono_d: "?t d2 m1 \<le> ?t d1 m1" if "epsilon < d1" and "d1 \<le> d2"
  proof -
    have d1: "0 < d1" using that(1) epsilon_ge powi_pos [of "- 30"] by linarith
    have "?a / d2 \<le> ?a / d1"
    proof (rule divide_left_mono)
      show "d1 \<le> d2" by (rule that(2))
      show "0 \<le> ?a" by (rule a)
      show "0 < d2 * d1" using d1 that(2) by simp
    qed
    then have "nearest (?a / d2) \<le> nearest (?a / d1)" by (rule nearest_mono)
    then have "\<lfloor>nearest (?a / d2)\<rfloor> \<le> \<lfloor>nearest (?a / d1)\<rfloor>" by (rule floor_mono)
    with that show ?thesis by auto
  qed
  have mono_m: "?t d1 m1 \<le> ?t d1 m2" if "m1 \<le> m2"
    using that by auto
  have ge: "m1 \<le> ?t d1 m1" by auto
  from e1 e2 e3 mono_d mono_m ge show ?thesis by blast
qed

theorem threshold_shape_witness:
  "log_contract nearest_log \<and> representable (1 / 2) \<and> (0::real) < 1 / 2 \<and> (1 / 2 :: real) < 1 \<and>
   epsilon < 5764607523034235 / 2 ^ 59 \<and> (5764607523034235 / 2 ^ 59 :: real) \<le> 3602879701896397 / 2 ^ 55 \<and> (10::int) \<le> 20 \<and>
   (\<exists>t1 t2 t3.
      calculate_dist_threshold nearest_log (Finite (5764607523034235 / 2 ^ 59)) (Finite (1 / 2)) 10 = Inr t1 \<and>
      calculate_dist_threshold nearest_log (Finite (3602879701896397 / 2 ^ 55)) (Finite (1 / 2)) 10 = Inr t2 \<and>
      calculate_dist_threshold nearest_log (Finite (5764607523034235 / 2 ^ 59)) (Finite (1 / 2)) 20 = Inr t3 \<and>
      t2 \<le> t1 \<and> t1 \<le> t3 \<and> 10 \<le> t1)"
proof -
  have a: "(0::real) < 1 / 2" and b: "(1 / 2 :: real) < 1" by simp_all
  note c = nearest_log_contract and r = representable_half
  have d: "epsilon < 5764607523034235 / 2 ^ 59" and e: "(5764607523034235 / 2 ^ 59 :: real) \<le> 3602879701896397 / 2 ^ 55"
    by (simp_all add: epsilon_def)
  from threshold_shape [OF c r a b, of "5764607523034235 / 2 ^ 59" 10 "3602879701896397 / 2 ^ 55" 20] d e
  have "\<exists>t1 t2 t3.
      calculate_dist_threshold nearest_log (Finite (5764607523034235 / 2 ^ 59)) (Finite (1 / 2)) 10 = Inr t1 \<and>
      calculate_dist_threshold nearest_log (Finite (3602879701896397 / 2 ^ 55)) (Finite (1 / 2)) 10 = Inr t2 \<and>
      calculate_dist_threshold nearest_log (Finite (5764607523034235 / 2 ^ 59)) (Finite (1 / 2)) 20 = Inr t3 \<and>
      t2 \<le> t1 \<and> t1 \<le> t3 \<and> 10 \<le> t1"
    by simp
  with a b c r d e show ?thesis by simp
qed

text \<open>
  Over all positive densities the threshold is not monotone: at the density \<^verbatim>\<open>1e-9\<close>
  the floor \<open>10\<close> is returned, and at the larger density \<^verbatim>\<open>0.01\<close> the threshold is
  \<open>69\<close>.
\<close>

theorem threshold_not_monotone_counterexample:
  "float_1e_9 = Finite epsilon \<and> to_float (1 / 100) = Finite (5764607523034235 / 2 ^ 59) \<and>
   0 < epsilon \<and> epsilon \<le> 5764607523034235 / 2 ^ 59 \<and>
   calculate_dist_threshold nearest_log (Finite epsilon) (Finite (1 / 2)) 10 = Inr 10 \<and>
   calculate_dist_threshold nearest_log (Finite (5764607523034235 / 2 ^ 59)) (Finite (1 / 2)) 10 = Inr 69"
proof -
  have "0 < epsilon" and "epsilon \<le> 5764607523034235 / 2 ^ 59" by (simp_all add: epsilon_def)
  moreover have "calculate_dist_threshold nearest_log (Finite epsilon) (Finite (1 / 2)) 10 = Inr 10"
    by (rule example_epsilon)
  moreover have "calculate_dist_threshold nearest_log (Finite (5764607523034235 / 2 ^ 59)) (Finite (1 / 2)) 10 = Inr 69"
    using example_0_01 [of 10] by simp
  ultimately show ?thesis using float_1e_9_value float_0_01 by simp
qed

end
